theory Spec2Isabelle
  imports Main "HOL-Library.Sublist" "HOL-Library.AList"
begin

section \<open>Characters and strings\<close>

text \<open>
  The program works on JavaScript strings.  They are modelled as \<^typ>\<open>string\<close>, a list of
  \<^typ>\<open>char\<close>; a \<^typ>\<open>char\<close> is a code unit in the range 0..255.
\<close>

fun bits_le :: "bool list \<Rightarrow> bool list \<Rightarrow> bool" where
  \<comment> \<open>comparison of two binary numbers of the same length, most significant bit first\<close>
  "bits_le (a # as) (b # bs) = (if a = b then bits_le as bs else b)"
| "bits_le _ _ = True"

definition char_bits :: "char \<Rightarrow> bool list" where
  "char_bits c = [digit7 c, digit6 c, digit5 c, digit4 c, digit3 c, digit2 c, digit1 c, digit0 c]"

definition char_le :: "char \<Rightarrow> char \<Rightarrow> bool" where
  \<comment> \<open>the order of the code units\<close>
  "char_le a b = bits_le (char_bits a) (char_bits b)"

definition in_range :: "char \<Rightarrow> char \<Rightarrow> char \<Rightarrow> bool" where
  "in_range lo hi c = (char_le lo c \<and> char_le c hi)"

definition is_digit :: "char \<Rightarrow> bool" where
  "is_digit c = in_range CHR ''0'' CHR ''9'' c"

definition is_lower :: "char \<Rightarrow> bool" where
  "is_lower c = in_range CHR ''a'' CHR ''z'' c"

definition is_upper :: "char \<Rightarrow> bool" where
  "is_upper c = in_range CHR ''A'' CHR ''Z'' c"

definition is_word :: "char \<Rightarrow> bool" where
  \<comment> \<open>the class \<open>\w\<close>\<close>
  "is_word c = (is_lower c \<or> is_upper c \<or> is_digit c \<or> c = CHR ''_'')"

definition is_space :: "char \<Rightarrow> bool" where
  \<comment> \<open>the class \<open>\s\<close> and the characters \<open>trim\<close> removes: TAB, LF, VT, FF, CR, SPACE, NBSP\<close>
  "is_space c = (c \<in> set [CHR 0x09, CHR 0x0A, CHR 0x0B, CHR 0x0C, CHR 0x0D, CHR 0x20, CHR 0xA0])"

definition upper_char :: "char \<Rightarrow> char" where
  \<comment> \<open>an ASCII lower-case letter loses bit 5 (\<open>0x61..0x7A\<close> to \<open>0x41..0x5A\<close>)\<close>
  "upper_char c =
     (if is_lower c
      then Char (digit0 c) (digit1 c) (digit2 c) (digit3 c) (digit4 c) False (digit6 c) (digit7 c)
      else c)"

definition lower_char :: "char \<Rightarrow> char" where
  "lower_char c =
     (if is_upper c
      then Char (digit0 c) (digit1 c) (digit2 c) (digit3 c) (digit4 c) True (digit6 c) (digit7 c)
      else c)"

definition toUpperCase :: "string \<Rightarrow> string" where
  "toUpperCase s = map upper_char s"

definition toLowerCase :: "string \<Rightarrow> string" where
  "toLowerCase s = map lower_char s"

definition trim :: "string \<Rightarrow> string" where
  "trim s = rev (dropWhile is_space (rev (dropWhile is_space s)))"

fun is_prefix :: "string \<Rightarrow> string \<Rightarrow> bool" where
  "is_prefix [] ys = True"
| "is_prefix (x # xs) [] = False"
| "is_prefix (x # xs) (y # ys) = (x = y \<and> is_prefix xs ys)"

fun str_includes :: "string \<Rightarrow> string \<Rightarrow> bool" where
  \<comment> \<open>\<open>s.includes(w)\<close>\<close>
  "str_includes [] w = (w = [])"
| "str_includes (c # cs) w = (is_prefix w (c # cs) \<or> str_includes cs w)"

fun split_on :: "char \<Rightarrow> string \<Rightarrow> string list" where
  \<comment> \<open>\<open>s.split(c)\<close> for a one-character separator\<close>
  "split_on c [] = [[]]"
| "split_on c (x # xs) =
     (if x = c then [] # split_on c xs
      else (case split_on c xs of [] \<Rightarrow> [[x]] | y # ys \<Rightarrow> (x # y) # ys))"

section \<open>Regular expressions\<close>

text \<open>
  The patterns of the program use literals, character classes, sequence, alternation,
  greedy bounded and unbounded repetition, capture groups, \<open>\b\<close>, \<open>^\<close> and \<open>$\<close>.
  The matcher below is the backtracking matcher of ECMAScript written with lists of
  successes: the results of a pattern at a position are the states it can end in, most
  preferred first, so the first element of the list is the match \<open>exec\<close> reports.
\<close>

datatype citem = One char | Rng char char | Digit | Word | Space

datatype regex =
    Eps
  | Chr char
  | Set bool "citem list"
  | Seq regex regex
  | Alt regex regex
  | Rep nat "nat option" regex
  | Grp nat regex
  | WordB
  | Bol
  | Eol

text \<open>
  A matcher state: the character before the current position (\<open>None\<close> at the start of
  the string), the text from the current position on, and the text of the capture groups
  matched so far.
\<close>

datatype mstate = St (prev: "char option") (rest: string) (caps: "(nat \<times> string) list")

fun item_has :: "citem \<Rightarrow> char \<Rightarrow> bool" where
  "item_has (One a) c = (c = a)"
| "item_has (Rng lo hi) c = in_range lo hi c"
| "item_has Digit c = is_digit c"
| "item_has Word c = is_word c"
| "item_has Space c = is_space c"

definition canon :: "bool \<Rightarrow> char \<Rightarrow> char" where
  \<comment> \<open>\<open>Canonicalize\<close>: with the flag \<open>i\<close> characters are compared in upper case\<close>
  "canon ic c = (if ic then upper_char c else c)"

definition variants :: "bool \<Rightarrow> char \<Rightarrow> char list" where
  \<comment> \<open>the characters with the same canonical form as \<open>c\<close>\<close>
  "variants ic c = (if ic then [c, upper_char c, lower_char c] else [c])"

definition set_has :: "bool \<Rightarrow> bool \<Rightarrow> citem list \<Rightarrow> char \<Rightarrow> bool" where
  \<comment> \<open>a class has a character when a member has its canonical form; \<open>neg\<close> inverts\<close>
  "set_has ic neg items c =
     ((\<exists>v \<in> set (variants ic c). \<exists>it \<in> set items. item_has it v) \<noteq> neg)"

definition word_before :: "mstate \<Rightarrow> bool" where
  "word_before x = (case prev x of None \<Rightarrow> False | Some c \<Rightarrow> is_word c)"

definition word_after :: "mstate \<Rightarrow> bool" where
  "word_after x = (case rest x of [] \<Rightarrow> False | c # _ \<Rightarrow> is_word c)"

definition dec :: "nat option \<Rightarrow> nat option" where
  "dec n = map_option (\<lambda>k. k - 1) n"

definition consumed :: "mstate \<Rightarrow> mstate \<Rightarrow> string" where
  \<comment> \<open>the text between an earlier state \<open>x\<close> and a later state \<open>y\<close>\<close>
  "consumed x y = take (length (rest x) - length (rest y)) (rest x)"

fun rep_greedy :: "(mstate \<Rightarrow> mstate list) \<Rightarrow> nat option \<Rightarrow> nat \<Rightarrow> mstate \<Rightarrow> mstate list" where
  \<comment> \<open>the optional iterations, as many as possible first.  An iteration that consumes
      nothing is rejected, so there are at most as many as characters left: that bound
      is the third argument\<close>
  "rep_greedy step n 0 x = [x]"
| "rep_greedy step n (Suc f) x =
     (if n = Some 0 then [x]
      else concat (map (rep_greedy step (dec n) f)
                       (filter (\<lambda>y. length (rest y) \<noteq> length (rest x)) (step x))) @ [x])"

fun rep_min :: "(mstate \<Rightarrow> mstate list) \<Rightarrow> nat \<Rightarrow> nat option \<Rightarrow> mstate \<Rightarrow> mstate list" where
  \<comment> \<open>the mandatory iterations first\<close>
  "rep_min step 0 n x = rep_greedy step n (length (rest x)) x"
| "rep_min step (Suc m) n x = concat (map (rep_min step m (dec n)) (step x))"

primrec rmatch :: "bool \<Rightarrow> regex \<Rightarrow> mstate \<Rightarrow> mstate list" where
  "rmatch ic Eps = (\<lambda>x. [x])"
| "rmatch ic (Chr c) =
     (\<lambda>x. case rest x of
            [] \<Rightarrow> []
          | d # ds \<Rightarrow> if canon ic d = canon ic c then [St (Some d) ds (caps x)] else [])"
| "rmatch ic (Set neg items) =
     (\<lambda>x. case rest x of
            [] \<Rightarrow> []
          | d # ds \<Rightarrow> if set_has ic neg items d then [St (Some d) ds (caps x)] else [])"
| "rmatch ic (Seq a b) = (\<lambda>x. concat (map (rmatch ic b) (rmatch ic a x)))"
| "rmatch ic (Alt a b) = (\<lambda>x. rmatch ic a x @ rmatch ic b x)"
| "rmatch ic (Rep m n r) = rep_min (rmatch ic r) m n"
| "rmatch ic (Grp i r) =
     (\<lambda>x. map (\<lambda>y. St (prev y) (rest y) ((i, consumed x y) # caps y)) (rmatch ic r x))"
| "rmatch ic WordB = (\<lambda>x. if word_before x \<noteq> word_after x then [x] else [])"
| "rmatch ic Bol = (\<lambda>x. if prev x = None then [x] else [])"
| "rmatch ic Eol = (\<lambda>x. if rest x = [] then [x] else [])"

subsection \<open>Pattern shorthands\<close>

fun Lit :: "string \<Rightarrow> regex" where
  "Lit [] = Eps"
| "Lit [c] = Chr c"
| "Lit (c # cs) = Seq (Chr c) (Lit cs)"

fun Seqs :: "regex list \<Rightarrow> regex" where
  "Seqs [] = Eps"
| "Seqs [r] = r"
| "Seqs (r # rs) = Seq r (Seqs rs)"

fun Alts :: "regex list \<Rightarrow> regex" where
  "Alts [] = Eps"
| "Alts [r] = r"
| "Alts (r # rs) = Alt r (Alts rs)"

definition Star :: "regex \<Rightarrow> regex" where
  "Star r = Rep 0 None r"

definition Plus :: "regex \<Rightarrow> regex" where
  "Plus r = Rep 1 None r"

definition Opt :: "regex \<Rightarrow> regex" where
  "Opt r = Rep 0 (Some 1) r"

definition Times :: "nat \<Rightarrow> regex \<Rightarrow> regex" where
  "Times n r = Rep n (Some n) r"

definition Cls :: "citem list \<Rightarrow> regex" where
  "Cls items = Set False items"

definition NCls :: "citem list \<Rightarrow> regex" where
  "NCls items = Set True items"

definition Ones :: "string \<Rightarrow> citem list" where
  "Ones cs = map One cs"

definition bslash :: char where
  "bslash = CHR 0x5C"

definition squote :: char where
  "squote = CHR 0x27"

definition dquote :: char where
  "dquote = CHR 0x22"

subsection \<open>\<open>exec\<close>, \<open>match\<close>, \<open>test\<close> and \<open>replace\<close>\<close>

text \<open>A pattern with its \<open>i\<close> flag.\<close>

record pattern =
  icase :: bool
  body :: regex

definition pat :: "regex \<Rightarrow> pattern" where
  "pat r = \<lparr>icase = False, body = r\<rparr>"

definition pat_i :: "regex \<Rightarrow> pattern" where
  "pat_i r = \<lparr>icase = True, body = r\<rparr>"

fun prev_after :: "char option \<Rightarrow> string \<Rightarrow> char option" where
  \<comment> \<open>the character before the position reached after the text \<open>cs\<close>\<close>
  "prev_after pv [] = pv"
| "prev_after pv (c # cs) = prev_after (Some c) cs"

text \<open>
  The result of \<open>exec\<close>: the text skipped before the match, the matched text, the
  capture groups, and the state after the match.
\<close>

record match_result =
  skipped :: string
  matched :: string
  groups :: "(nat \<times> string) list"
  after :: mstate

fun exec_at :: "pattern \<Rightarrow> char option \<Rightarrow> string \<Rightarrow> match_result option" where
  \<comment> \<open>\<open>exec\<close> from a position on: the leftmost position where the pattern matches, and
      there the first match in the matcher's order\<close>
  "exec_at p pv s =
     (case rmatch (icase p) (body p) (St pv s []) of
        y # _ \<Rightarrow> Some \<lparr>skipped = [], matched = consumed (St pv s []) y, groups = caps y, after = y\<rparr>
      | [] \<Rightarrow> (case s of
                 [] \<Rightarrow> None
               | c # cs \<Rightarrow> map_option (\<lambda>m. m\<lparr>skipped := c # skipped m\<rparr>) (exec_at p (Some c) cs)))"

declare exec_at.simps [simp del]

definition str_match :: "string \<Rightarrow> pattern \<Rightarrow> match_result option" where
  \<comment> \<open>\<open>s.match(p)\<close> for a pattern without the \<open>g\<close> flag\<close>
  "str_match s p = exec_at p None s"

definition test :: "pattern \<Rightarrow> string \<Rightarrow> bool" where
  "test p s = (str_match s p \<noteq> None)"

definition group :: "match_result \<Rightarrow> nat \<Rightarrow> string option" where
  \<comment> \<open>\<open>match[i]\<close> for \<open>i > 0\<close>; \<open>None\<close> is \<open>undefined\<close>\<close>
  "group m i = map_of (groups m) i"

text \<open>
  The second argument of \<open>replace\<close>: a replacement string, with its \<open>$n\<close> references
  parsed, or a function of the matched text.
\<close>

datatype part = Txt string | Ref nat

datatype replacement = Template "part list" | Callback "string \<Rightarrow> string"

fun expand_part :: "match_result \<Rightarrow> part \<Rightarrow> string" where
  "expand_part m (Txt t) = t"
| "expand_part m (Ref i) = (case group m i of None \<Rightarrow> [] | Some g \<Rightarrow> g)"

fun substitute :: "replacement \<Rightarrow> match_result \<Rightarrow> string" where
  "substitute (Template ps) m = concat (map (expand_part m) ps)"
| "substitute (Callback f) m = f (matched m)"

subsection \<open>The matcher only moves forward\<close>

text \<open>
  The results of the matcher are lists, often \<open>if c then [y] else []\<close>; the simplifier
  is kept from turning their sets into set comprehensions.
\<close>

declare refl [simproc del: list_to_set_comprehension]

lemma rep_greedy_suffix:
  assumes step: "\<And>x y. y \<in> set (step x) \<Longrightarrow> suffix (rest y) (rest x)"
  shows "y \<in> set (rep_greedy step n f x) \<Longrightarrow> suffix (rest y) (rest x)"
proof (induction f arbitrary: n x y)
  case 0
  then show ?case by simp
next
  case (Suc f)
  show ?case
  proof (cases "n = Some 0")
    case True
    with Suc.prems show ?thesis by simp
  next
    case False
    with Suc.prems consider "y = x"
      | z where "z \<in> set (step x)" "y \<in> set (rep_greedy step (dec n) f z)"
      by auto
    then show ?thesis
    proof cases
      case 1
      then show ?thesis by simp
    next
      case 2
      from Suc.IH [OF 2(2)] step [OF 2(1)] show ?thesis
        by (rule suffix_order.trans)
    qed
  qed
qed

lemma rep_min_suffix:
  assumes step: "\<And>x y. y \<in> set (step x) \<Longrightarrow> suffix (rest y) (rest x)"
  shows "y \<in> set (rep_min step m n x) \<Longrightarrow> suffix (rest y) (rest x)"
proof (induction m arbitrary: n x y)
  case 0
  then show ?case using rep_greedy_suffix [of step] step by simp
next
  case (Suc m)
  then obtain z where z: "z \<in> set (step x)" "y \<in> set (rep_min step m (dec n) z)"
    by auto
  from Suc.IH [OF z(2)] step [OF z(1)] show ?case
    by (rule suffix_order.trans)
qed

lemma rmatch_suffix: "y \<in> set (rmatch ic r x) \<Longrightarrow> suffix (rest y) (rest x)"
proof (induction r arbitrary: x y)
  case (Seq a b)
  then obtain z where "z \<in> set (rmatch ic a x)" "y \<in> set (rmatch ic b z)"
    by auto
  with Seq.IH show ?case
    by (blast intro: suffix_order.trans)
next
  case (Rep m n r)
  then show ?case
    using rep_min_suffix [of "rmatch ic r"] by simp
next
  case (Chr c)
  then show ?case
    by (cases "rest x") (auto split: if_splits simp: suffix_def)
next
  case (Set neg items)
  then show ?case
    by (cases "rest x") (auto split: if_splits simp: suffix_def)
qed (auto split: if_splits)

lemma consumed_append:
  "suffix (rest y) (rest x) \<Longrightarrow> consumed x y @ rest y = rest x"
  by (auto simp: suffix_def consumed_def)

lemma exec_at_parts:
  "exec_at p pv s = Some m \<Longrightarrow> skipped m @ matched m @ rest (after m) = s"
proof (induction p pv s arbitrary: m rule: exec_at.induct)
  case (1 p pv s)
  show ?case
  proof (cases "rmatch (icase p) (body p) (St pv s [])")
    case Nil
    with "1.prems" obtain c cs m' where s: "s = c # cs"
      and m': "exec_at p (Some c) cs = Some m'" "m = m'\<lparr>skipped := c # skipped m'\<rparr>"
      by (subst (asm) exec_at.simps) (auto split: list.splits)
    from "1.IH" [OF Nil s m'(1)] s m'(2) show ?thesis by simp
  next
    case (Cons y ys)
    then have "suffix (rest y) s"
      using rmatch_suffix [of y "icase p" "body p" "St pv s []"] by simp
    then have "consumed (St pv s []) y @ rest y = s"
      using consumed_append [of y "St pv s []"] by simp
    with Cons "1.prems" show ?thesis
      by (subst (asm) exec_at.simps) auto
  qed
qed

text \<open>
  \<open>s.replace(p, r)\<close> for a pattern with the \<open>g\<close> flag: every match is replaced, the
  text between matches is copied, and after an empty match the search resumes one
  character further.
\<close>

function replace_from :: "pattern \<Rightarrow> replacement \<Rightarrow> char option \<Rightarrow> string \<Rightarrow> string" where
  "replace_from p r pv s =
     (case exec_at p pv s of
        None \<Rightarrow> s
      | Some m \<Rightarrow>
          skipped m @ substitute r m @
          (if matched m = []
           then (case rest (after m) of
                   [] \<Rightarrow> []
                 | c # cs \<Rightarrow> c # replace_from p r (Some c) cs)
           else replace_from p r (prev (after m)) (rest (after m))))"
  by pat_completeness auto
termination
proof (relation "measure (\<lambda>(p, r, pv, s). length s)")
  show "wf (measure (\<lambda>(p, r, pv, s). length s))" by simp
next
  fix p :: pattern and r :: replacement and pv s m c cs
  assume "exec_at p pv s = Some m" "rest (after m) = c # cs"
  then have "length (skipped m @ matched m @ c # cs) = length s"
    using exec_at_parts [of p pv s m] by simp
  then show "((p, r, Some c, cs), (p, r, pv, s)) \<in> measure (\<lambda>(p, r, pv, s). length s)"
    by simp
next
  fix p :: pattern and r :: replacement and pv s m
  assume "exec_at p pv s = Some m" "matched m \<noteq> []"
  then have "length (skipped m @ matched m @ rest (after m)) = length s" "length (matched m) > 0"
    using exec_at_parts [of p pv s m] by simp_all
  then show "((p, r, prev (after m), rest (after m)), (p, r, pv, s))
               \<in> measure (\<lambda>(p, r, pv, s). length s)"
    by (cases "matched m") auto
qed

declare replace_from.simps [simp del]

definition replace_all :: "pattern \<Rightarrow> replacement \<Rightarrow> string \<Rightarrow> string" where
  "replace_all p r s = replace_from p r None s"

section \<open>The masker (App.tsx)\<close>

subsection \<open>The platform's URL class\<close>

text \<open>
  \<open>maskUrl\<close> uses the platform's \<open>URL\<close> class, which is not code of the repository.
  Its operations are a parameter of the model.  One fact of the URL standard is
  written out: the constructor, called without a base, fails unless the input (leading
  and trailing C0 controls and spaces stripped, tabs and newlines removed) starts with a
  scheme, that is an ASCII letter, then letters, digits, \<open>+\<close>, \<open>-\<close> or \<open>.\<close>, then a colon.
\<close>

record 'u url_class =
  parse_url :: "string \<Rightarrow> 'u option"
  get_username :: "'u \<Rightarrow> string"
  get_password :: "'u \<Rightarrow> string"
  set_username :: "string \<Rightarrow> 'u \<Rightarrow> 'u"
  set_password :: "string \<Rightarrow> 'u \<Rightarrow> 'u"
  search_params :: "'u \<Rightarrow> (string \<times> string) list"
  search_params_set :: "string \<Rightarrow> string \<Rightarrow> 'u \<Rightarrow> 'u"
  url_toString :: "'u \<Rightarrow> string"

definition is_c0_or_space :: "char \<Rightarrow> bool" where
  "is_c0_or_space c = char_le c CHR 0x20"

definition is_tab_or_newline :: "char \<Rightarrow> bool" where
  "is_tab_or_newline c = (c \<in> set [CHR 0x09, CHR 0x0A, CHR 0x0D])"

definition is_scheme_char :: "char \<Rightarrow> bool" where
  "is_scheme_char c = (is_lower c \<or> is_upper c \<or> is_digit c \<or> c \<in> set ''+-.'')"

definition has_scheme :: "string \<Rightarrow> bool" where
  "has_scheme s =
     (case filter (\<lambda>c. \<not> is_tab_or_newline c)
             (rev (dropWhile is_c0_or_space (rev (dropWhile is_c0_or_space s)))) of
        [] \<Rightarrow> False
      | c # cs \<Rightarrow> (is_lower c \<or> is_upper c) \<and>
                 (case dropWhile is_scheme_char cs of [] \<Rightarrow> False | d # _ \<Rightarrow> d = CHR '':''))"

definition new_URL :: "'u url_class \<Rightarrow> string \<Rightarrow> 'u option" where
  \<comment> \<open>\<open>new URL(url)\<close>; \<open>None\<close> is the \<open>TypeError\<close> it throws\<close>
  "new_URL U s = (if has_scheme s then parse_url U s else None)"

subsection \<open>\<open>maskUrl\<close>\<close>

definition MASKED :: string where
  "MASKED = ''***MASKED***''"

definition sensitiveParams :: "string list" where
  "sensitiveParams = [''token'', ''key'', ''password'', ''secret'', ''auth'']"

definition url_fallback_pattern :: pattern where
  \<comment> \<open>\<open>/([?&](token|key|password|secret|auth)[^=]*=)[^&]*/gi\<close>\<close>
  "url_fallback_pattern = pat_i (Seqs
     [Grp 1 (Seqs [Cls (Ones ''?&''),
                   Grp 2 (Alts [Lit ''token'', Lit ''key'', Lit ''password'', Lit ''secret'',
                                Lit ''auth'']),
                   Star (NCls [One CHR ''=''] ), Chr CHR ''='']),
      Star (NCls [One CHR ''&''])])"

definition url_fallback :: "string \<Rightarrow> string" where
  \<comment> \<open>the \<open>catch\<close> branch: \<open>url.replace(..., '$1***MASKED***')\<close>\<close>
  "url_fallback url = replace_all url_fallback_pattern (Template [Ref 1, Txt MASKED]) url"

definition is_sensitive_param :: "string \<Rightarrow> bool" where
  "is_sensitive_param key = (\<exists>param \<in> set sensitiveParams. str_includes (toLowerCase key) param)"

definition mask_userinfo :: "'u url_class \<Rightarrow> 'u \<Rightarrow> 'u" where
  "mask_userinfo U u =
     (if get_username U u \<noteq> [] \<or> get_password U u \<noteq> []
      then set_password U ''***'' (set_username U ''***'' u) else u)"

definition mask_params :: "'u url_class \<Rightarrow> 'u \<Rightarrow> 'u" where
  \<comment> \<open>\<open>searchParams.forEach\<close>: \<open>set\<close> keeps the first pair of a name and removes the
      later ones, so every name of the list is visited\<close>
  "mask_params U u =
     fold (\<lambda>key v. if is_sensitive_param key then search_params_set U key MASKED v else v)
       (map fst (search_params U u)) u"

definition maskUrl :: "'u url_class \<Rightarrow> string \<Rightarrow> string" where
  "maskUrl U url =
     (if url = [] then url
      else (case new_URL U url of
              Some urlObj \<Rightarrow> url_toString U (mask_params U (mask_userinfo U urlObj))
            | None \<Rightarrow> url_fallback url))"

subsection \<open>\<open>maskHeaders\<close>\<close>

text \<open>A \<open>Record<string, string>\<close> is an association list with distinct keys.\<close>

type_synonym headers = "(string \<times> string) list"

definition is_sensitive_header :: "string \<Rightarrow> bool" where
  "is_sensitive_header key =
     (str_includes (toLowerCase key) ''authorization'' \<or>
      str_includes (toLowerCase key) ''token'' \<or>
      str_includes (toLowerCase key) ''key'')"

definition maskHeaders :: "headers \<Rightarrow> headers" where
  "maskHeaders hs = map (\<lambda>(key, v). if is_sensitive_header key then (key, MASKED) else (key, v)) hs"

subsection \<open>\<open>maskSensitiveData\<close>\<close>

definition cred_value :: regex where
  \<comment> \<open>\<open>[^\s&,;)}\]'"]\<close>\<close>
  "cred_value = NCls (Space # Ones ''&,;)}]'' @ [One squote, One dquote])"

definition url_value :: regex where
  \<comment> \<open>\<open>[^\s,;)}\]'"]\<close>\<close>
  "url_value = NCls (Space # Ones '',;)}]'' @ [One squote, One dquote])"

definition conn_value :: regex where
  \<comment> \<open>\<open>[^\s;,)}\]]\<close>\<close>
  "conn_value = NCls (Space # Ones '';,)}]'')"

definition cred_pattern :: "regex \<Rightarrow> pattern" where
  \<comment> \<open>\<open>/key[=:]\s*[^\s&,;)}\]'"]+/gi\<close>\<close>
  "cred_pattern key = pat_i (Seqs [key, Cls (Ones ''=:''), Star (Cls [Space]), Plus cred_value])"

definition scheme_pattern :: "string \<Rightarrow> pattern" where
  \<comment> \<open>\<open>/Bearer\s+[^\s&,;)}\]'"]+/gi\<close> and the same for \<open>Basic\<close>\<close>
  "scheme_pattern w = pat_i (Seqs [Lit w, Plus (Cls [Space]), Plus cred_value])"

definition conn_pattern :: "string \<Rightarrow> pattern" where
  \<comment> \<open>\<open>/key[=:][^\s;,)}\]]+/gi\<close>\<close>
  "conn_pattern key = pat_i (Seqs [Lit key, Cls (Ones ''=:''), Plus conn_value])"

definition abs_url_pattern :: pattern where
  \<comment> \<open>\<open>/https?:\/\/[^\s,;)}\]'"]+/gi\<close>\<close>
  "abs_url_pattern = pat_i (Seqs [Lit ''http'', Opt (Chr CHR ''s''), Lit ''://'', Plus url_value])"

definition rel_url_pattern :: pattern where
  \<comment> \<open>\<open>/\/[^\s?]*\?[^\s,;)}\]'"]+/g\<close>\<close>
  "rel_url_pattern = pat (Seqs [Chr CHR ''/'', Star (NCls [Space, One CHR ''?'']), Chr CHR ''?'',
                                Plus url_value])"

definition d13 :: regex where
  \<comment> \<open>\<open>\d{1,3}\<close>\<close>
  "d13 = Rep 1 (Some 3) (Cls [Digit])"

definition ipv4_pattern :: pattern where
  \<comment> \<open>\<open>/\b\d{1,3}\.\d{1,3}\.\d{1,3}\.\d{1,3}\b/g\<close>\<close>
  "ipv4_pattern = pat (Seqs [WordB, d13, Chr CHR ''.'', d13, Chr CHR ''.'', d13, Chr CHR ''.'', d13,
                             WordB])"

definition h14 :: regex where
  \<comment> \<open>\<open>[0-9a-fA-F]{1,4}\<close>\<close>
  "h14 = Rep 1 (Some 4) (Cls [Rng CHR ''0'' CHR ''9'', Rng CHR ''a'' CHR ''f'', Rng CHR ''A'' CHR ''F''])"

definition h14c :: regex where
  \<comment> \<open>\<open>[0-9a-fA-F]{1,4}:\<close>\<close>
  "h14c = Seq h14 (Chr CHR '':'')"

definition ipv6_full_pattern :: pattern where
  \<comment> \<open>\<open>/\b(?:[0-9a-fA-F]{1,4}:){7}[0-9a-fA-F]{1,4}\b/g\<close>\<close>
  "ipv6_full_pattern = pat (Seqs [WordB, Times 7 h14c, h14, WordB])"

definition ipv6_mid_pattern :: pattern where
  \<comment> \<open>\<open>/\b(?:[0-9a-fA-F]{1,4}:){1,6}:[0-9a-fA-F]{1,4}\b/g\<close>\<close>
  "ipv6_mid_pattern = pat (Seqs [WordB, Rep 1 (Some 6) h14c, Chr CHR '':'', h14, WordB])"

definition ipv6_lead_pattern :: pattern where
  \<comment> \<open>\<open>/\b::(?:[0-9a-fA-F]{1,4}:)*[0-9a-fA-F]{1,4}\b/g\<close>\<close>
  "ipv6_lead_pattern = pat (Seqs [WordB, Lit ''::'', Star h14c, h14, WordB])"

definition ipv6_one_pattern :: pattern where
  \<comment> \<open>\<open>/\b[0-9a-fA-F]{1,4}::(?:[0-9a-fA-F]{1,4}:)*[0-9a-fA-F]{1,4}\b/g\<close>\<close>
  "ipv6_one_pattern = pat (Seqs [WordB, h14, Lit ''::'', Star h14c, h14, WordB])"

definition alnum :: "citem list" where
  \<comment> \<open>\<open>A-Za-z0-9\<close>\<close>
  "alnum = [Rng CHR ''A'' CHR ''Z'', Rng CHR ''a'' CHR ''z'', Rng CHR ''0'' CHR ''9'']"

definition email_pattern :: pattern where
  \<comment> \<open>\<open>/\b[A-Za-z0-9._%+-]+@[A-Za-z0-9.-]+\.[A-Z|a-z]{2,}\b/g\<close>\<close>
  "email_pattern = pat (Seqs
     [WordB, Plus (Cls (alnum @ Ones ''._%+-'')), Chr CHR ''@'', Plus (Cls (alnum @ Ones ''.-'')),
      Chr CHR ''.'',
      Rep 2 None (Cls [Rng CHR ''A'' CHR ''Z'', One CHR ''|'', Rng CHR ''a'' CHR ''z'']), WordB])"

definition d09 :: regex where
  \<comment> \<open>\<open>[0-9]\<close>\<close>
  "d09 = Cls [Rng CHR ''0'' CHR ''9'']"

definition phone_sep :: regex where
  \<comment> \<open>\<open>[-.\s]?\<close>\<close>
  "phone_sep = Opt (Cls [One CHR ''-'', One CHR ''.'', Space])"

definition phone_pattern :: pattern where
  \<comment> \<open>\<open>/\b(?:\+?1[-.\s]?)?\(?[0-9]{3}\)?[-.\s]?[0-9]{3}[-.\s]?[0-9]{4}\b/g\<close>\<close>
  "phone_pattern = pat (Seqs
     [WordB, Opt (Seqs [Opt (Chr CHR ''+''), Chr CHR ''1'', phone_sep]),
      Opt (Chr CHR ''(''), Times 3 d09, Opt (Chr CHR '')''), phone_sep,
      Times 3 d09, phone_sep, Times 4 d09, WordB])"

definition card_pattern :: pattern where
  \<comment> \<open>\<open>/\b(?:4[0-9]{12}(?:[0-9]{3})?|5[1-5][0-9]{14}|3[47][0-9]{13}|3[0-9]{13}|6(?:011|5[0-9]{2})[0-9]{12})\b/g\<close>\<close>
  "card_pattern = pat (Seqs
     [WordB,
      Alts [Seqs [Chr CHR ''4'', Times 12 d09, Opt (Times 3 d09)],
            Seqs [Chr CHR ''5'', Cls [Rng CHR ''1'' CHR ''5''], Times 14 d09],
            Seqs [Chr CHR ''3'', Cls (Ones ''47''), Times 13 d09],
            Seqs [Chr CHR ''3'', Times 13 d09],
            Seqs [Chr CHR ''6'', Alts [Lit ''011'', Seqs [Chr CHR ''5'', Times 2 d09]], Times 12 d09]],
      WordB])"

definition ssn_pattern :: pattern where
  \<comment> \<open>\<open>/\b\d{3}-\d{2}-\d{4}\b/g\<close>\<close>
  "ssn_pattern = pat (Seqs [WordB, Times 3 (Cls [Digit]), Chr CHR ''-'', Times 2 (Cls [Digit]),
                            Chr CHR ''-'', Times 4 (Cls [Digit]), WordB])"

definition path_char :: regex where
  \<comment> \<open>\<open>[^\\/:*?"<>|\r\n]\<close>\<close>
  "path_char = NCls (Ones ([bslash] @ ''/:*?'' @ [dquote] @ ''<>|'' @ [CHR 0x0D, CHR 0x0A]))"

definition win_path_pattern :: pattern where
  \<comment> \<open>\<open>/[A-Za-z]:\\(?:[^\\/:*?"<>|\r\n]+\\)*[^\\/:*?"<>|\r\n]*/g\<close>\<close>
  "win_path_pattern = pat (Seqs
     [Cls [Rng CHR ''A'' CHR ''Z'', Rng CHR ''a'' CHR ''z''], Chr CHR '':'', Chr bslash,
      Star (Seq (Plus path_char) (Chr bslash)), Star path_char])"

definition home_path_pattern :: pattern where
  \<comment> \<open>\<open>/\/(?:home|Users)\/[^\s,;)}\]]+/g\<close>\<close>
  "home_path_pattern = pat (Seqs [Chr CHR ''/'', Alt (Lit ''home'') (Lit ''Users''), Chr CHR ''/'',
                                  Plus (NCls (Space # Ones '',;)}]''))])"

definition hx :: regex where
  \<comment> \<open>\<open>[0-9a-f]\<close>\<close>
  "hx = Cls [Rng CHR ''0'' CHR ''9'', Rng CHR ''a'' CHR ''f'']"

definition uuid_pattern :: pattern where
  \<comment> \<open>\<open>/\b[0-9a-f]{8}-[0-9a-f]{4}-[1-5][0-9a-f]{3}-[89ab][0-9a-f]{3}-[0-9a-f]{12}\b/gi\<close>\<close>
  "uuid_pattern = pat_i (Seqs
     [WordB, Times 8 hx, Chr CHR ''-'', Times 4 hx, Chr CHR ''-'',
      Cls [Rng CHR ''1'' CHR ''5''], Times 3 hx, Chr CHR ''-'',
      Cls (Ones ''89ab''), Times 3 hx, Chr CHR ''-'', Times 12 hx, WordB])"

definition hash_pattern :: pattern where
  \<comment> \<open>\<open>/\b[A-Za-z0-9+/]{32,}={0,2}\b/g\<close>\<close>
  "hash_pattern = pat (Seqs [WordB, Rep 32 None (Cls (alnum @ Ones ''+/'')),
                             Rep 0 (Some 2) (Chr CHR ''=''), WordB])"

definition hash_callback :: "string \<Rightarrow> string" where
  "hash_callback m =
     (if length m \<ge> 32 \<and> test (pat (Cls [Rng CHR ''A'' CHR ''Z''])) m
                        \<and> test (pat (Cls [Rng CHR ''a'' CHR ''z''])) m
                        \<and> test (pat (Cls [Rng CHR ''0'' CHR ''9''])) m
      then ''***HASH_MASKED***'' else m)"

definition const :: "string \<Rightarrow> replacement" where
  "const t = Template [Txt t]"

text \<open>The chain of \<open>replace\<close> calls, in the order of the source.\<close>

definition mask_rules :: "'u url_class \<Rightarrow> (pattern \<times> replacement) list" where
  "mask_rules U =
     [(cred_pattern (Lit ''password''), const ''password=***MASKED***''),
      (cred_pattern (Lit ''token''), const ''token=***MASKED***''),
      (cred_pattern (Seqs [Lit ''api'', Opt (Cls (Ones ''_-'')), Lit ''key'']),
         const ''api_key=***MASKED***''),
      (scheme_pattern ''Bearer'', const ''Bearer ***MASKED***''),
      (scheme_pattern ''Basic'', const ''Basic ***MASKED***''),
      (cred_pattern (Lit ''jwt''), const ''jwt=***MASKED***''),
      (cred_pattern (Lit ''session''), const ''session=***MASKED***''),
      (abs_url_pattern, Callback (maskUrl U)),
      (rel_url_pattern, Callback (maskUrl U)),
      (ipv4_pattern, const ''***IP_MASKED***''),
      (ipv6_full_pattern, const ''***IPv6_MASKED***''),
      (ipv6_mid_pattern, const ''***IPv6_MASKED***''),
      (ipv6_lead_pattern, const ''***IPv6_MASKED***''),
      (ipv6_one_pattern, const ''***IPv6_MASKED***''),
      (email_pattern, const ''***EMAIL_MASKED***''),
      (phone_pattern, const ''***PHONE_MASKED***''),
      (card_pattern, const ''***CARD_MASKED***''),
      (ssn_pattern, const ''***SSN_MASKED***''),
      (conn_pattern ''server'', const ''server=***MASKED***''),
      (conn_pattern ''database'', const ''database=***MASKED***''),
      (conn_pattern ''user'', const ''user=***MASKED***''),
      (conn_pattern ''uid'', const ''uid=***MASKED***''),
      (conn_pattern ''pwd'', const ''pwd=***MASKED***''),
      (win_path_pattern, const ''***PATH_MASKED***''),
      (home_path_pattern, const ''***PATH_MASKED***''),
      (uuid_pattern, const ''***UUID_MASKED***''),
      (hash_pattern, Callback hash_callback)]"

definition maskSensitiveData :: "'u url_class \<Rightarrow> string \<Rightarrow> string" where
  "maskSensitiveData U message = fold (\<lambda>(p, r). replace_all p r) (mask_rules U) message"


subsection \<open>\<open>handleMaskLogs\<close>\<close>

text \<open>
  A \<open>LogEntry\<close> (types.ts).  The \<open>level\<close> is the string the parser stores; the optional
  fields are \<open>None\<close> when \<open>undefined\<close>.  The field \<open>metadata\<close> is never written or read.
\<close>

record LogEntry =
  log_id :: string
  timestamp :: string
  level :: string
  message :: string
  component :: "string option"
  url :: "string option"
  responseCode :: "string option"
  headers :: "headers option"

definition or_else :: "'a list option \<Rightarrow> 'a list \<Rightarrow> 'a list" where
  \<comment> \<open>\<open>x || d\<close> for an optional string or object\<close>
  "or_else x d = (case x of None \<Rightarrow> d | Some v \<Rightarrow> if v = [] then d else v)"

definition mask_entry :: "'u url_class \<Rightarrow> LogEntry \<Rightarrow> LogEntry" where
  \<comment> \<open>the body of \<open>logs.map\<close>: the spread \<open>...log\<close>, then the three fields\<close>
  "mask_entry U log =
     log\<lparr>message := maskSensitiveData U (message log),
         url := Some (maskUrl U (or_else (url log) [])),
         headers := Some (maskHeaders (case headers log of None \<Rightarrow> [] | Some h \<Rightarrow> h))\<rparr>"

definition handleMaskLogs :: "'u url_class \<Rightarrow> LogEntry list \<Rightarrow> LogEntry list" where
  \<comment> \<open>the value given to \<open>setMaskedLogs\<close>\<close>
  "handleMaskLogs U logs = map (mask_entry U) logs"

section \<open>The parser (LogUploader.tsx)\<close>

subsection \<open>Numbers and dates of the platform\<close>

text \<open>
  Numbers are integers here: the indices and time values of the program are whole
  numbers far below \<open>2^53\<close>, where the arithmetic of the platform is exact.
\<close>

definition digit_char :: "int \<Rightarrow> char" where
  "digit_char d =
     (if d = 0 then CHR ''0'' else if d = 1 then CHR ''1'' else if d = 2 then CHR ''2''
      else if d = 3 then CHR ''3'' else if d = 4 then CHR ''4'' else if d = 5 then CHR ''5''
      else if d = 6 then CHR ''6'' else if d = 7 then CHR ''7'' else if d = 8 then CHR ''8''
      else CHR ''9'')"

function decimal :: "int \<Rightarrow> string" where
  \<comment> \<open>a number that is not negative, as a template string or \<open>String\<close> writes it\<close>
  "decimal n = (if n < 10 then [digit_char n] else decimal (n div 10) @ [digit_char (n mod 10)])"
  by pat_completeness auto
termination
  by (relation "measure nat") auto

declare decimal.simps [simp del]

definition pad :: "nat \<Rightarrow> int \<Rightarrow> string" where
  \<comment> \<open>a number in at least \<open>w\<close> digits, zeros in front\<close>
  "pad w n = replicate (w - length (decimal n)) CHR ''0'' @ decimal n"

definition digit_value :: "char \<Rightarrow> int" where
  "digit_value c =
     (case map_of (zip ''0123456789'' [0, 1, 2, 3, 4, 5, 6, 7, 8, 9]) c of
        None \<Rightarrow> 0
      | Some v \<Rightarrow> v)"

definition parseInt :: "string \<Rightarrow> int" where
  \<comment> \<open>\<open>parseInt\<close> of a string of decimal digits\<close>
  "parseInt s = foldl (\<lambda>n c. 10 * n + digit_value c) 0 s"

text \<open>
  \<open>Date.prototype.toISOString\<close> on a time value in milliseconds since the epoch:
  the civil date of the day number, then the time of day.  Years after 9999 are written
  with a sign and six digits.  Time values before the epoch do not occur.
\<close>

definition civil :: "int \<Rightarrow> int \<times> int \<times> int" where
  \<comment> \<open>year, month and day of a day number counted from 1970-01-01\<close>
  "civil days =
     (let z = days + 719468;
          era = z div 146097;
          doe = z mod 146097;
          yoe = (doe - doe div 1460 + doe div 36524 - doe div 146096) div 365;
          doy = doe - (365 * yoe + yoe div 4 - yoe div 100);
          mp = (5 * doy + 2) div 153;
          d = doy - (153 * mp + 2) div 5 + 1;
          m = (if mp < 10 then mp + 3 else mp - 9);
          y = yoe + era * 400 + (if m \<le> 2 then 1 else 0)
      in (y, m, d))"

definition iso_format :: "int \<Rightarrow> string" where
  "iso_format ms =
     (let (y, m, d) = civil (ms div 86400000);
          t = ms mod 86400000
      in (if y \<le> 9999 then pad 4 y else CHR ''+'' # pad 6 y) @ ''-'' @ pad 2 m @ ''-'' @ pad 2 d @
         ''T'' @ pad 2 (t div 3600000) @ '':'' @ pad 2 (t div 60000 mod 60) @ '':'' @
         pad 2 (t div 1000 mod 60) @ ''.'' @ pad 3 (t mod 1000) @ ''Z'')"

datatype error = RangeError

definition toISOString :: "int \<Rightarrow> error + string" where
  \<comment> \<open>a time value beyond 8.64e15 is invalid, and \<open>toISOString\<close> throws on it\<close>
  "toISOString ms = (if ms \<le> 8640000000000000 then Inr (iso_format ms) else Inl RangeError)"

subsection \<open>The patterns of \<open>parseLogText\<close>\<close>

definition dg :: regex where
  \<comment> \<open>\<open>\d\<close>\<close>
  "dg = Cls [Digit]"

definition hms :: regex where
  \<comment> \<open>\<open>\d{2}:\d{2}:\d{2}\<close>\<close>
  "hms = Seqs [Times 2 dg, Chr CHR '':'', Times 2 dg, Chr CHR '':'', Times 2 dg]"

definition ts_iso_pattern :: pattern where
  \<comment> \<open>\<open>/(\d{4}-\d{2}-\d{2}[T\s]\d{2}:\d{2}:\d{2}(?:\.\d{3})?(?:Z|[+-]\d{2}:\d{2})?)/\<close>\<close>
  "ts_iso_pattern = pat (Grp 1 (Seqs
     [Times 4 dg, Chr CHR ''-'', Times 2 dg, Chr CHR ''-'', Times 2 dg,
      Cls [One CHR ''T'', Space], hms,
      Opt (Seq (Chr CHR ''.'') (Times 3 dg)),
      Opt (Alt (Chr CHR ''Z'')
               (Seqs [Cls (Ones ''+-''), Times 2 dg, Chr CHR '':'', Times 2 dg]))]))"

definition ts_slash_pattern :: pattern where
  \<comment> \<open>\<open>/(\d{2}\/\d{2}\/\d{4}\s+\d{2}:\d{2}:\d{2})/\<close>\<close>
  "ts_slash_pattern = pat (Grp 1 (Seqs
     [Times 2 dg, Chr CHR ''/'', Times 2 dg, Chr CHR ''/'', Times 4 dg, Plus (Cls [Space]), hms]))"

definition ts_syslog_pattern :: pattern where
  \<comment> \<open>\<open>/(\w{3}\s+\d{1,2}\s+\d{2}:\d{2}:\d{2})/\<close>\<close>
  "ts_syslog_pattern = pat (Grp 1 (Seqs
     [Times 3 (Cls [Word]), Plus (Cls [Space]), Rep 1 (Some 2) dg, Plus (Cls [Space]), hms]))"

definition ts_millis_pattern :: pattern where
  \<comment> \<open>\<open>/(\d{13})/\<close>\<close>
  "ts_millis_pattern = pat (Grp 1 (Times 13 dg))"

definition timestampPatterns :: "pattern list" where
  "timestampPatterns = [ts_iso_pattern, ts_slash_pattern, ts_syslog_pattern, ts_millis_pattern]"

definition epoch_pattern :: pattern where
  \<comment> \<open>\<open>/^\d{13}$/\<close>\<close>
  "epoch_pattern = pat (Seqs [Bol, Times 13 dg, Eol])"

definition level_keywords :: "string list" where
  "level_keywords = [''TRACE'', ''DEBUG'', ''INFO'', ''WARN'', ''WARNING'', ''ERROR'', ''FATAL'',
                     ''CRITICAL'']"

definition level_pattern :: pattern where
  \<comment> \<open>\<open>/\b(TRACE|DEBUG|INFO|WARN|WARNING|ERROR|FATAL|CRITICAL)\b/i\<close>\<close>
  "level_pattern = pat_i (Seqs [WordB, Grp 1 (Alts (map Lit level_keywords)), WordB])"

definition url_http_pattern :: pattern where
  \<comment> \<open>\<open>/https?:\/\/[^\s,;)}\]]+/\<close>\<close>
  "url_http_pattern = pat (Seqs [Lit ''http'', Opt (Chr CHR ''s''), Lit ''://'', Plus conn_value])"

definition url_path_pattern :: pattern where
  \<comment> \<open>\<open>/\/[a-zA-Z0-9\/\-_.~!*'();:@&=+$,?#[\]]*/\<close>\<close>
  "url_path_pattern = pat (Seqs
     [Chr CHR ''/'',
      Star (Cls ([Rng CHR ''a'' CHR ''z'', Rng CHR ''A'' CHR ''Z'', Rng CHR ''0'' CHR ''9'']
                 @ Ones (''/-_.~!*'' @ [squote] @ ''();:@&=+$,?#[]'')))])"

definition url_scheme_pattern :: pattern where
  \<comment> \<open>\<open>/\w+:\/\/[^\s,;)}\]]+/\<close>\<close>
  "url_scheme_pattern = pat (Seqs [Plus (Cls [Word]), Lit ''://'', Plus conn_value])"

definition urlPatterns :: "pattern list" where
  "urlPatterns = [url_http_pattern, url_path_pattern, url_scheme_pattern]"

definition code3 :: regex where
  \<comment> \<open>\<open>([1-5]\d{2})\<close>\<close>
  "code3 = Grp 1 (Seq (Cls [Rng CHR ''1'' CHR ''5'']) (Times 2 dg))"

definition sep_plus :: regex where
  \<comment> \<open>\<open>[=:\s]+\<close>\<close>
  "sep_plus = Plus (Cls [One CHR ''='', One CHR '':'', Space])"

definition code_bare_pattern :: pattern where
  \<comment> \<open>\<open>/\b([1-5]\d{2})\b/\<close>\<close>
  "code_bare_pattern = pat (Seqs [WordB, code3, WordB])"

definition code_status_pattern :: pattern where
  \<comment> \<open>\<open>/status[=:\s]+([1-5]\d{2})/i\<close>\<close>
  "code_status_pattern = pat_i (Seqs [Lit ''status'', sep_plus, code3])"

definition code_code_pattern :: pattern where
  \<comment> \<open>\<open>/code[=:\s]+([1-5]\d{2})/i\<close>\<close>
  "code_code_pattern = pat_i (Seqs [Lit ''code'', sep_plus, code3])"

definition responseCodePatterns :: "pattern list" where
  "responseCodePatterns = [code_bare_pattern, code_status_pattern, code_code_pattern]"

definition word_plus :: regex where
  \<comment> \<open>\<open>\w+\<close>\<close>
  "word_plus = Plus (Cls [Word])"

definition comp_bracket_pattern :: pattern where
  \<comment> \<open>\<open>/\[([^\]]+)\]/\<close>\<close>
  "comp_bracket_pattern = pat (Seqs [Chr CHR ''['', Grp 1 (Plus (NCls [One CHR '']''])), Chr CHR '']''])"

definition comp_suffix_pattern :: pattern where
  \<comment> \<open>\<open>/(\w+Service|\w+Controller|\w+Module|\w+Handler|\w+Provider)/\<close>\<close>
  "comp_suffix_pattern = pat (Grp 1 (Alts
     [Seq word_plus (Lit ''Service''), Seq word_plus (Lit ''Controller''),
      Seq word_plus (Lit ''Module''), Seq word_plus (Lit ''Handler''),
      Seq word_plus (Lit ''Provider'')]))"

definition comp_logger_pattern :: pattern where
  \<comment> \<open>\<open>/logger[=:\s]+(\w+)/i\<close>\<close>
  "comp_logger_pattern = pat_i (Seqs [Lit ''logger'', sep_plus, Grp 1 word_plus])"

definition comp_class_pattern :: pattern where
  \<comment> \<open>\<open>/class[=:\s]+(\w+)/i\<close>\<close>
  "comp_class_pattern = pat_i (Seqs [Lit ''class'', sep_plus, Grp 1 word_plus])"

definition comp_prefix_pattern :: pattern where
  \<comment> \<open>\<open>/^(\w+):/\<close>\<close>
  "comp_prefix_pattern = pat (Seqs [Bol, Grp 1 word_plus, Chr CHR '':''])"

definition componentPatterns :: "pattern list" where
  "componentPatterns = [comp_bracket_pattern, comp_suffix_pattern, comp_logger_pattern,
                        comp_class_pattern, comp_prefix_pattern]"

definition header_pattern :: pattern where
  \<comment> \<open>\<open>/headers?\s*[:=]\s*\{([^}]+)\}/i\<close>\<close>
  "header_pattern = pat_i (Seqs
     [Lit ''header'', Opt (Chr CHR ''s''), Star (Cls [Space]), Cls (Ones '':=''), Star (Cls [Space]),
      Chr CHR ''{'', Grp 1 (Plus (NCls [One CHR ''}''])), Chr CHR ''}''])"

definition quote_pattern :: pattern where
  \<comment> \<open>\<open>/['"]/g\<close>\<close>
  "quote_pattern = pat (Cls [One squote, One dquote])"

subsection \<open>\<open>parseLogText\<close>\<close>

definition group1 :: "match_result \<Rightarrow> string" where
  \<comment> \<open>\<open>match[1]\<close>, for the patterns above: group 1 lies on every path of each of them\<close>
  "group1 m = (case group m 1 of None \<Rightarrow> [] | Some g \<Rightarrow> g)"

fun first_matching :: "pattern list \<Rightarrow> string \<Rightarrow> match_result option" where
  \<comment> \<open>the first pattern of a list that matches the line: the \<open>for\<close> loops with \<open>break\<close>,
      and the chains of \<open>||\<close>\<close>
  "first_matching [] line = None"
| "first_matching (p # ps) line =
     (case str_match line p of None \<Rightarrow> first_matching ps line | Some m \<Rightarrow> Some m)"

definition extract_timestamp :: "int \<Rightarrow> string \<Rightarrow> error + string" where
  \<comment> \<open>\<open>now\<close> is the time value \<open>new Date()\<close> reads, which is always a valid one\<close>
  "extract_timestamp now line =
     (case first_matching timestampPatterns line of
        None \<Rightarrow> Inr (iso_format now)
      | Some m \<Rightarrow>
          if test epoch_pattern (group1 m) then toISOString (parseInt (group1 m))
          else Inr (group1 m))"

definition normalize_level :: "string \<Rightarrow> string" where
  \<comment> \<open>the \<open>switch\<close>\<close>
  "normalize_level matchedLevel =
     (if matchedLevel = ''WARNING'' then ''WARN''
      else if matchedLevel = ''FATAL'' \<or> matchedLevel = ''CRITICAL'' then ''ERROR''
      else if matchedLevel = ''TRACE'' then ''DEBUG''
      else matchedLevel)"

definition extract_level :: "string \<Rightarrow> string" where
  "extract_level line =
     (case str_match line level_pattern of
        None \<Rightarrow> ''INFO''
      | Some levelMatch \<Rightarrow> normalize_level (toUpperCase (group1 levelMatch)))"

definition extract_url :: "string \<Rightarrow> string option" where
  "extract_url line = map_option matched (first_matching urlPatterns line)"

definition extract_responseCode :: "string \<Rightarrow> string option" where
  "extract_responseCode line = map_option group1 (first_matching responseCodePatterns line)"

definition extract_component :: "string \<Rightarrow> string option" where
  "extract_component line = map_option group1 (first_matching componentPatterns line)"

definition strip_quotes :: "string \<Rightarrow> string" where
  \<comment> \<open>\<open>s.trim().replace(/['"]/g, '')\<close>\<close>
  "strip_quotes s = replace_all quote_pattern (const []) (trim s)"

definition assign :: "string \<Rightarrow> string \<Rightarrow> headers \<Rightarrow> headers" where
  \<comment> \<open>\<open>headers[key] = value\<close>; a string assigned to \<open>__proto__\<close> is ignored\<close>
  "assign key v hs = (if key = ''__proto__'' then hs else AList.update key v hs)"

definition add_pair :: "string \<Rightarrow> headers \<Rightarrow> headers" where
  \<comment> \<open>the body of \<open>headerPairs.forEach\<close>: \<open>[key, value]\<close> are the first two pieces\<close>
  "add_pair pair hs =
     (case map strip_quotes (split_on CHR '':'' pair) of
        key # v # _ \<Rightarrow> if key \<noteq> [] \<and> v \<noteq> [] then assign key v hs else hs
      | _ \<Rightarrow> hs)"

definition extract_headers :: "string \<Rightarrow> headers" where
  "extract_headers line =
     (case str_match line header_pattern of
        None \<Rightarrow> []
      | Some headerMatches \<Rightarrow> fold add_pair (split_on CHR '','' (group1 headerMatches)) [])"

definition make_id :: "nat \<Rightarrow> string" where
  \<comment> \<open>the template \<open>log-${index + 1}\<close>\<close>
  "make_id index = ''log-'' @ decimal (int index + 1)"

definition try_parse_line :: "int \<Rightarrow> nat \<Rightarrow> string \<Rightarrow> error + LogEntry" where
  \<comment> \<open>the \<open>try\<close> block; \<open>Inl\<close> is an exception thrown in it\<close>
  "try_parse_line now index line =
     (case extract_timestamp now line of
        Inl e \<Rightarrow> Inl e
      | Inr ts \<Rightarrow>
          Inr \<lparr>log_id = make_id index,
               timestamp = ts,
               level = extract_level line,
               message = trim line,
               component = extract_component line,
               url = extract_url line,
               responseCode = extract_responseCode line,
               headers = (let hs = extract_headers line in if hs \<noteq> [] then Some hs else None)\<rparr>)"

definition fallbackLog :: "int \<Rightarrow> nat \<Rightarrow> string \<Rightarrow> LogEntry" where
  \<comment> \<open>the entry the \<open>catch\<close> block builds\<close>
  "fallbackLog now index line =
     \<lparr>log_id = make_id index,
      timestamp = iso_format now,
      level = ''INFO'',
      message = (if trim line \<noteq> [] then trim line
                 else ''[Unparseable log entry at line '' @ decimal (int index + 1) @ '']''),
      component = None, url = None, responseCode = None, headers = None\<rparr>"

record parse_state =
  logs :: "LogEntry list"
  parsedCount :: nat
  errorCount :: nat

definition parse_step :: "(nat \<Rightarrow> int) \<Rightarrow> nat \<times> string \<Rightarrow> parse_state \<Rightarrow> parse_state" where
  \<comment> \<open>the body of \<open>lines.forEach((line, index) => ...)\<close>\<close>
  "parse_step clock il st =
     (case try_parse_line (clock (fst il)) (fst il) (snd il) of
        Inr log \<Rightarrow> st\<lparr>logs := logs st @ [log], parsedCount := parsedCount st + 1\<rparr>
      | Inl e \<Rightarrow> st\<lparr>logs := logs st @ [fallbackLog (clock (fst il)) (fst il) (snd il)],
                     errorCount := errorCount st + 1\<rparr>)"

definition nonblank_lines :: "string \<Rightarrow> string list" where
  \<comment> \<open>\<open>text.split('\n').filter(line => line.trim())\<close>\<close>
  "nonblank_lines text = filter (\<lambda>line. trim line \<noteq> []) (split_on CHR 0x0A text)"

definition parseLogText :: "(nat \<Rightarrow> int) \<Rightarrow> string \<Rightarrow> LogEntry list" where
  \<comment> \<open>\<open>clock i\<close> is the time value \<open>new Date()\<close> reads while the line of index \<open>i\<close> is
      processed\<close>
  "parseLogText clock text =
     logs (fold (parse_step clock) (enumerate 0 (nonblank_lines text))
                \<lparr>logs = [], parsedCount = 0, errorCount = 0\<rparr>)"


section \<open>Properties of the matcher\<close>

lemma exec_at_sound:
  "exec_at p pv s = Some m \<Longrightarrow>
     \<exists>s' ys. s = skipped m @ s' \<and>
       rmatch (icase p) (body p) (St (prev_after pv (skipped m)) s' []) = after m # ys \<and>
       groups m = caps (after m) \<and>
       matched m = consumed (St (prev_after pv (skipped m)) s' []) (after m)"
proof (induction p pv s arbitrary: m rule: exec_at.induct)
  case (1 p pv s)
  show ?case
  proof (cases "rmatch (icase p) (body p) (St pv s [])")
    case Nil
    with "1.prems" obtain c cs m' where s: "s = c # cs"
      and m': "exec_at p (Some c) cs = Some m'" "m = m'\<lparr>skipped := c # skipped m'\<rparr>"
      by (subst (asm) exec_at.simps) (auto split: list.splits)
    from "1.IH" [OF Nil s m'(1)] obtain s' ys where
      "cs = skipped m' @ s'"
      "rmatch (icase p) (body p) (St (prev_after (Some c) (skipped m')) s' []) = after m' # ys"
      "groups m' = caps (after m')"
      "matched m' = consumed (St (prev_after (Some c) (skipped m')) s' []) (after m')"
      by blast
    with s m'(2) show ?thesis
      by auto
  next
    case (Cons y ys)
    with "1.prems" have "m = \<lparr>skipped = [], matched = consumed (St pv s []) y, groups = caps y, after = y\<rparr>"
      by (subst (asm) exec_at.simps) auto
    with Cons show ?thesis
      by auto
  qed
qed




lemma prev_after_append: "prev_after pv (a @ b) = prev_after (prev_after pv a) b"
  by (induction a arbitrary: pv) simp_all

lemma prev_after_Some: "prev_after (Some c) cs = Some (last (c # cs))"
  by (induction cs arbitrary: c) simp_all

lemma prev_after_None: "prev_after None sk = None \<Longrightarrow> sk = []"
  by (cases sk) (simp_all add: prev_after_Some)

lemma consumed_eq: "rest x = k @ rest y \<Longrightarrow> consumed x y = k"
  by (simp add: consumed_def)

lemma chr_step:
  assumes "y \<in> set (rmatch ic (Chr c) x)"
  shows "\<exists>d. rest x = d # rest y \<and> canon ic d = canon ic c \<and> caps y = caps x \<and> prev y = Some d"
proof (cases "rest x")
  case Nil
  with assms show ?thesis by simp
next
  case (Cons d ds)
  show ?thesis
  proof (cases "canon ic d = canon ic c")
    case True
    with assms Cons show ?thesis by simp
  next
    case False
    with assms Cons show ?thesis by simp
  qed
qed

lemma set_step:
  assumes "y \<in> set (rmatch ic (Set neg items) x)"
  shows "\<exists>d. rest x = d # rest y \<and> set_has ic neg items d \<and> caps y = caps x \<and> prev y = Some d"
proof (cases "rest x")
  case Nil
  with assms show ?thesis by simp
next
  case (Cons d ds)
  show ?thesis
  proof (cases "set_has ic neg items d")
    case True
    with assms Cons show ?thesis by simp
  next
    case False
    with assms Cons show ?thesis by simp
  qed
qed

lemma seq_mem:
  "y \<in> set (rmatch ic (Seq a b) x) \<longleftrightarrow> (\<exists>z \<in> set (rmatch ic a x). y \<in> set (rmatch ic b z))"
  by auto

lemma alt_mem:
  "y \<in> set (rmatch ic (Alt a b) x) \<longleftrightarrow> y \<in> set (rmatch ic a x) \<or> y \<in> set (rmatch ic b x)"
  by auto

lemma bol_mem: "y \<in> set (rmatch ic Bol x) \<longleftrightarrow> y = x \<and> prev x = None"
  by auto

lemma eol_mem: "y \<in> set (rmatch ic Eol x) \<longleftrightarrow> y = x \<and> rest x = []"
  by auto

lemma wordb_mem: "y \<in> set (rmatch ic WordB x) \<longleftrightarrow> y = x \<and> word_before x \<noteq> word_after x"
  by auto

lemma lit_sound:
  "y \<in> set (rmatch ic (Lit k) x) \<Longrightarrow>
     \<exists>k'. rest x = k' @ rest y \<and> length k' = length k \<and> map (canon ic) k' = map (canon ic) k \<and>
          caps y = caps x \<and> prev y = prev_after (prev x) k'"
proof (induction k arbitrary: x rule: Lit.induct)
  case 1
  then show ?case by simp
next
  case (2 c)
  then obtain d where "rest x = d # rest y" "canon ic d = canon ic c" "caps y = caps x"
    "prev y = Some d"
    using chr_step [of y ic c x] by auto
  then show ?case
    by (intro exI [of _ "[d]"]) simp
next
  case (3 c c2 cs)
  from "3.prems" obtain z where z: "z \<in> set (rmatch ic (Chr c) x)"
    and y: "y \<in> set (rmatch ic (Lit (c2 # cs)) z)"
    by auto
  from z obtain d where d: "rest x = d # rest z" "canon ic d = canon ic c" "caps z = caps x"
    "prev z = Some d"
    using chr_step [of z ic c x] by auto
  from "3.IH" [OF y] obtain k' where k': "rest z = k' @ rest y" "length k' = length (c2 # cs)"
    "map (canon ic) k' = map (canon ic) (c2 # cs)" "caps y = caps z" "prev y = prev_after (prev z) k'"
    by blast
  from d k' show ?case
    by (intro exI [of _ "d # k'"]) simp
qed

lemma rep_exact:
  assumes step: "\<And>x y. y \<in> set (step x) \<Longrightarrow> \<exists>d. rest x = d # rest y \<and> P d"
  shows "y \<in> set (rep_min step n (Some n) x) \<Longrightarrow>
           \<exists>ds. rest x = ds @ rest y \<and> length ds = n \<and> list_all P ds"
proof (induction n arbitrary: x)
  case 0
  then have "y = x"
    by (cases "length (rest x)") simp_all
  then show ?case by simp
next
  case (Suc n)
  then obtain z where z: "z \<in> set (step x)" and y: "y \<in> set (rep_min step n (Some n) z)"
    by (auto simp: dec_def)
  from step [OF z] obtain d where d: "rest x = d # rest z" "P d" by blast
  from Suc.IH [OF y] obtain ds where "rest z = ds @ rest y" "length ds = n" "list_all P ds"
    by blast
  with d show ?case
    by (intro exI [of _ "d # ds"]) simp
qed

lemma alts_mem:
  "y \<in> set (rmatch ic (Alts rs) x) \<Longrightarrow> rs \<noteq> [] \<Longrightarrow> \<exists>r \<in> set rs. y \<in> set (rmatch ic r x)"
  by (induction rs rule: Alts.induct) auto

lemma grp_mem:
  "y \<in> set (rmatch ic (Grp i r) x) \<longleftrightarrow>
     (\<exists>z \<in> set (rmatch ic r x). y = St (prev z) (rest z) ((i, consumed x z) # caps z))"
  by auto

lemma upper_char_word:
  "upper_char c' = upper_char c \<Longrightarrow> upper_char c = c \<Longrightarrow> is_word c \<Longrightarrow> is_word c'"
  by (cases "is_lower c'") (simp_all add: is_word_def upper_char_def)

lemma upper_keyword:
  "map upper_char k' = map upper_char kw \<Longrightarrow> list_all (\<lambda>c. upper_char c = c \<and> is_word c) kw \<Longrightarrow>
     list_all is_word k' \<and> map upper_char k' = kw"
proof (induction k' arbitrary: kw)
  case Nil
  then show ?case by simp
next
  case (Cons c k')
  then obtain d ds where kw: "kw = d # ds" by (cases kw) auto
  with Cons.prems have "upper_char c = upper_char d" "upper_char d = d" "is_word d"
    "map upper_char k' = map upper_char ds" "list_all (\<lambda>c. upper_char c = c \<and> is_word c) ds"
    by simp_all
  with Cons.IH [of ds] kw upper_char_word [of c d] show ?case by simp
qed

lemma prev_after_last: "prev_after pv sk = (if sk = [] then pv else Some (last sk))"
  by (cases sk) (simp_all add: prev_after_Some)




lemma seq_intro:
  "z \<in> set (rmatch ic a x) \<Longrightarrow> y \<in> set (rmatch ic b z) \<Longrightarrow> y \<in> set (rmatch ic (Seq a b) x)"
  by auto

lemma set_complete:
  "set_has ic neg items d \<Longrightarrow> St (Some d) ds cs \<in> set (rmatch ic (Set neg items) (St pv (d # ds) cs))"
  by simp

lemma lit_complete:
  "length k' = length k \<Longrightarrow> map (canon ic) k' = map (canon ic) k \<Longrightarrow>
     St (prev_after pv k') t cs \<in> set (rmatch ic (Lit k) (St pv (k' @ t) cs))"
proof (induction k arbitrary: k' pv rule: Lit.induct)
  case 1
  then show ?case by simp
next
  case (2 c)
  then obtain d where "k' = [d]" by (cases k') auto
  with 2 show ?case by simp
next
  case (3 c c2 cs')
  then obtain d ds where k': "k' = d # ds" by (cases k') auto
  with "3.prems" have "length ds = length (c2 # cs')" "map (canon ic) ds = map (canon ic) (c2 # cs')"
    "canon ic d = canon ic c"
    by simp_all
  with "3.IH" [of ds "Some d"] k' show ?case
    by (auto intro!: bexI [of _ "St (Some d) (ds @ t) cs"])
qed
















lemma exec_at_leftmost:
  "rmatch (icase p) (body p) (St (prev_after pv a) b []) \<noteq> [] \<Longrightarrow>
     \<exists>m. exec_at p pv (a @ b) = Some m \<and> length (skipped m) \<le> length a"
proof (induction a arbitrary: pv)
  case Nil
  then show ?case
    by (subst exec_at.simps) (auto split: list.splits)
next
  case (Cons c a)
  show ?case
  proof (cases "rmatch (icase p) (body p) (St pv (c # a @ b) [])")
    case Nil
    from Cons.IH [of "Some c"] Cons.prems obtain m where
      "exec_at p (Some c) (a @ b) = Some m" "length (skipped m) \<le> length a"
      by auto
    with Nil show ?thesis
      by (subst exec_at.simps) simp
  next
    case (Cons y ys)
    then show ?thesis
      by (subst exec_at.simps) simp
  qed
qed

lemma alts_intro:
  "r \<in> set rs \<Longrightarrow> y \<in> set (rmatch ic r x) \<Longrightarrow> y \<in> set (rmatch ic (Alts rs) x)"
  by (induction rs rule: Alts.induct) auto

section \<open>Inputs for the closed instances\<close>

text \<open>
  A platform whose \<open>URL\<close> constructor rejects every input.  It closes the instances
  below, which are at inputs that hold no absolute URL: there the constructor is never
  asked about a string with a scheme, and every platform gives the same result.
\<close>

definition no_URL :: "unit url_class" where
  "no_URL = \<lparr>parse_url = (\<lambda>_. None), get_username = (\<lambda>_. []), get_password = (\<lambda>_. []),
              set_username = (\<lambda>_ u. u), set_password = (\<lambda>_ u. u), search_params = (\<lambda>_. []),
              search_params_set = (\<lambda>_ _ u. u), url_toString = (\<lambda>_. [])\<rparr>"

definition bare_entry :: LogEntry where
  \<comment> \<open>an entry without the optional fields\<close>
  "bare_entry = \<lparr>log_id = ''log-1'', timestamp = ''2024-01-15 10:30:45'', level = ''WARN'',
                  message = ''disk almost full'', component = Some ''Disk'', url = None,
                  responseCode = None, headers = None\<rparr>"

definition clock_a :: "nat \<Rightarrow> int" where
  \<comment> \<open>an invocation at 2023-11-14T22:13:20Z\<close>
  "clock_a i = 1700000000000"

definition clock_b :: "nat \<Rightarrow> int" where
  \<comment> \<open>an invocation one second later\<close>
  "clock_b i = 1700000001000"

definition blank_then_foo :: string where
  \<comment> \<open>an empty first line, then the line \<open>foo\<close>\<close>
  "blank_then_foo = CHR 0x0A # ''foo''"

definition two_of_three :: string where
  \<comment> \<open>the line \<open>a\<close>, an empty line, and the line \<open>b\<close> between blanks\<close>
  "two_of_three = ''a'' @ [CHR 0x0A, CHR 0x0A] @ ''  b ''"

definition stamped_line :: string where
  "stamped_line = ''2024-01-15 10:30:45 ERROR disk full''"

definition warning_match :: match_result where
  \<comment> \<open>the match of the level pattern in \<open>a Warning b\<close>\<close>
  "warning_match = \<lparr>skipped = ''a '', matched = ''Warning'', groups = [(1, ''Warning'')],
                      after = St (Some CHR ''g'') '' b'' [(1, ''Warning'')]\<rparr>"




section \<open>Properties of the masker\<close>

lemma maskUrl_empty: "maskUrl U [] = []"
  by (simp add: maskUrl_def)

text \<open>
  C5.  Masking a list of entries keeps the \<open>id\<close>, \<open>timestamp\<close>, \<open>level\<close> and
  \<open>component\<close> of every entry (and its \<open>responseCode\<close>): only \<open>message\<close>, \<open>url\<close> and
  \<open>headers\<close> are rewritten.
\<close>

theorem handleMaskLogs_frame:
  "map log_id (handleMaskLogs U entries) = map log_id entries \<and>
   map timestamp (handleMaskLogs U entries) = map timestamp entries \<and>
   map level (handleMaskLogs U entries) = map level entries \<and>
   map component (handleMaskLogs U entries) = map component entries \<and>
   map responseCode (handleMaskLogs U entries) = map responseCode entries"
  by (simp add: handleMaskLogs_def mask_entry_def comp_def)

theorem handleMaskLogs_frame_witness:
  "map log_id (handleMaskLogs no_URL [bare_entry]) = [''log-1''] \<and>
   map timestamp (handleMaskLogs no_URL [bare_entry]) = [''2024-01-15 10:30:45''] \<and>
   map level (handleMaskLogs no_URL [bare_entry]) = [''WARN''] \<and>
   map component (handleMaskLogs no_URL [bare_entry]) = [Some ''Disk''] \<and>
   map responseCode (handleMaskLogs no_URL [bare_entry]) = [None]"
  using handleMaskLogs_frame [of no_URL "[bare_entry]"] by (simp add: bare_entry_def)

text \<open>
  C10.  An entry without \<open>url\<close> comes out of the masking step with the empty string as
  \<open>url\<close>, and an entry without \<open>headers\<close> with the empty map as \<open>headers\<close>; \<open>maskUrl\<close>
  itself returns the empty string as it is.
\<close>

theorem handleMaskLogs_absent_fields:
  "maskUrl U [] = [] \<and>
   (\<forall>i < length entries.
      (url (entries ! i) = None \<longrightarrow> url (handleMaskLogs U entries ! i) = Some []) \<and>
      (headers (entries ! i) = None \<longrightarrow> headers (handleMaskLogs U entries ! i) = Some []))"
  by (simp add: handleMaskLogs_def mask_entry_def maskUrl_empty or_else_def maskHeaders_def)

theorem handleMaskLogs_absent_fields_witness:
  "url bare_entry = None \<and> headers bare_entry = None \<and>
   url (handleMaskLogs no_URL [bare_entry] ! 0) = Some [] \<and>
   headers (handleMaskLogs no_URL [bare_entry] ! 0) = Some []"
  using handleMaskLogs_absent_fields [of no_URL "[bare_entry]"] by (simp add: bare_entry_def)


subsection \<open>The credential after \<open>password=\<close>\<close>
















subsection \<open>Masking twice\<close>










subsection \<open>The fallback of \<open>maskUrl\<close>\<close>

lemma maskUrl_without_scheme:
  "\<not> has_scheme u \<Longrightarrow> maskUrl U u = (if u = [] then u else url_fallback u)"
  by (simp add: maskUrl_def new_URL_def)

text \<open>
  C9.  The string \<open>not a real url?token=abc\<close> has no scheme, so the constructor throws
  and the fallback replaces \<open>abc\<close>.  But the fallback only sees a name that starts with
  one of the five words: the relative URL \<open>/api?access_token=abc\<close>, whose name holds
  \<open>token\<close>, comes back as it is.
\<close>

theorem maskUrl_fallback_misses_name:
  "maskUrl no_URL ''not a real url?token=abc'' = ''not a real url?token=***MASKED***'' \<and>
   is_sensitive_param ''access_token'' \<and>
   maskUrl no_URL ''/api?access_token=abc'' = ''/api?access_token=abc''"
  by code_simp

section \<open>Properties of the parser\<close>

definition line_entry :: "(nat \<Rightarrow> int) \<Rightarrow> nat \<times> string \<Rightarrow> LogEntry" where
  \<comment> \<open>the entry one round of the loop pushes\<close>
  "line_entry clock il =
     (case try_parse_line (clock (fst il)) (fst il) (snd il) of
        Inr log \<Rightarrow> log
      | Inl e \<Rightarrow> fallbackLog (clock (fst il)) (fst il) (snd il))"

definition line_timestamp :: "int \<Rightarrow> string \<Rightarrow> string" where
  \<comment> \<open>the timestamp of the entry of a line, read at the time value \<open>now\<close>\<close>
  "line_timestamp now line =
     (case first_matching timestampPatterns line of
        None \<Rightarrow> iso_format now
      | Some m \<Rightarrow> if test epoch_pattern (group1 m) then iso_format (parseInt (group1 m))
                  else group1 m)"

definition spec_ids :: "string \<Rightarrow> string list" where
  \<comment> \<open>the ids that number every non-blank line by its position in the whole text\<close>
  "spec_ids text =
     map (\<lambda>il. make_id (fst il))
       (filter (\<lambda>il. trim (snd il) \<noteq> []) (enumerate 0 (split_on CHR 0x0A text)))"

text \<open>
  The table of the level keywords as the specification gives it, each keyword with the
  level it stands for, and what it means for a keyword to stand in a line: the text \<open>w\<close>
  between \<open>a\<close> and \<open>b\<close> is the keyword \<open>k\<close> in some letter case, with no word character
  directly before or after it.
\<close>

definition keyword_table :: "(string \<times> string) list" where
  "keyword_table =
     [(''TRACE'', ''DEBUG''), (''DEBUG'', ''DEBUG''), (''INFO'', ''INFO''), (''WARN'', ''WARN''),
      (''WARNING'', ''WARN''), (''ERROR'', ''ERROR''), (''FATAL'', ''ERROR''),
      (''CRITICAL'', ''ERROR'')]"

definition stands_at :: "string \<Rightarrow> string \<Rightarrow> string \<Rightarrow> string \<Rightarrow> bool" where
  "stands_at k a w b =
     (toUpperCase w = k \<and> (a = [] \<or> \<not> is_word (last a)) \<and> (b = [] \<or> \<not> is_word (hd b)))"

lemma parse_step_logs: "logs (parse_step clock il st) = logs st @ [line_entry clock il]"
  by (simp add: parse_step_def line_entry_def split: sum.splits)

lemma fold_parse_step_logs:
  "logs (fold (parse_step clock) ils st) = logs st @ map (line_entry clock) ils"
  by (induction ils arbitrary: st) (simp_all add: parse_step_logs)

lemma parseLogText_entries:
  "parseLogText clock text = map (line_entry clock) (enumerate 0 (nonblank_lines text))"
  by (simp add: parseLogText_def fold_parse_step_logs)

lemma line_entry_id: "log_id (line_entry clock il) = make_id (fst il)"
  by (simp add: line_entry_def try_parse_line_def fallbackLog_def split: sum.splits)

lemma line_entry_message:
  "trim (snd il) \<noteq> [] \<Longrightarrow> message (line_entry clock il) = trim (snd il)"
  by (simp add: line_entry_def try_parse_line_def fallbackLog_def split: sum.splits)

lemma nonblank_lines_trim: "line \<in> set (nonblank_lines text) \<Longrightarrow> trim line \<noteq> []"
  by (simp add: nonblank_lines_def)

lemma enumerate_snd_mem: "il \<in> set (enumerate n xs) \<Longrightarrow> snd il \<in> set xs"
  by (cases il) (auto simp: in_set_enumerate_eq)

lemma epoch_digits:
  assumes "test epoch_pattern g"
  shows "length g = 13 \<and> list_all (set_has False False [Digit]) g"
proof -
  from assms obtain m where m: "exec_at epoch_pattern None g = Some m"
    by (auto simp: test_def str_match_def)
  from exec_at_sound [OF m] obtain s' ys where s': "g = skipped m @ s'"
    and r: "rmatch False (Seq Bol (Seq (Rep 13 (Some 13) (Set False [Digit])) Eol))
              (St (prev_after None (skipped m)) s' []) = after m # ys"
    by (auto simp: epoch_pattern_def pat_def Times_def dg_def Cls_def)
  let ?R = "Rep 13 (Some 13) (Set False [Digit])"
  from r have "after m \<in> set (rmatch False (Seq Bol (Seq ?R Eol)) (St (prev_after None (skipped m)) s' []))"
    by simp
  then obtain z y where z: "z \<in> set (rmatch False Bol (St (prev_after None (skipped m)) s' []))"
    and y: "y \<in> set (rmatch False ?R z)" and a: "after m \<in> set (rmatch False Eol y)"
    unfolding seq_mem by blast
  from z have b: "prev_after None (skipped m) = None" and z': "z = St None s' []"
    by (auto split: if_splits)
  from b have sk: "skipped m = []" by (rule prev_after_None)
  from a have e: "rest y = []"
    by (auto split: if_splits)
  from y z' have "y \<in> set (rep_min (rmatch False (Set False [Digit])) 13 (Some 13) (St None s' []))"
    by simp
  from rep_exact [of "rmatch False (Set False [Digit])" "set_has False False [Digit]" y 13 "St None s' []"]
    set_step [of _ False False "[Digit]"] this
  obtain ds where "s' = ds @ rest y" "length ds = 13" "list_all (set_has False False [Digit]) ds"
    by (metis mstate.sel(2))
  with e s' sk show ?thesis by simp
qed

lemma digit_value_range: "0 \<le> digit_value c \<and> digit_value c \<le> 9"
  by (simp add: digit_value_def)

lemma parseInt_bound_aux:
  "0 \<le> a \<Longrightarrow> foldl (\<lambda>n c. 10 * n + digit_value c) a s < (a + 1) * 10 ^ length s"
proof (induction s arbitrary: a)
  case Nil
  then show ?case by simp
next
  case (Cons c s)
  have "0 \<le> 10 * a + digit_value c"
    using Cons.prems digit_value_range [of c] by simp
  from Cons.IH [OF this]
  have "foldl (\<lambda>n c. 10 * n + digit_value c) (10 * a + digit_value c) s
          < (10 * a + digit_value c + 1) * 10 ^ length s" .
  also have "\<dots> \<le> (10 * a + 10) * 10 ^ length s"
    using digit_value_range [of c] by (intro mult_right_mono) simp_all
  finally show ?case by (simp add: algebra_simps)
qed

lemma parseInt_bound: "parseInt s < 10 ^ length s"
  using parseInt_bound_aux [of 0 s] by (simp add: parseInt_def)

lemma extract_timestamp_Inr: "\<exists>ts. extract_timestamp now line = Inr ts"
proof (cases "first_matching timestampPatterns line")
  case None
  then show ?thesis by (simp add: extract_timestamp_def)
next
  case (Some m)
  show ?thesis
  proof (cases "test epoch_pattern (group1 m)")
    case True
    then have "length (group1 m) = 13" using epoch_digits by blast
    with parseInt_bound [of "group1 m"] have "parseInt (group1 m) < 10 ^ 13" by simp
    then have "parseInt (group1 m) \<le> 8640000000000000" by simp
    with Some True show ?thesis by (simp add: extract_timestamp_def toISOString_def)
  next
    case False
    with Some show ?thesis by (simp add: extract_timestamp_def)
  qed
qed

lemma try_parse_line_Inr: "\<exists>log. try_parse_line now index line = Inr log"
  using extract_timestamp_Inr [of now line]
  by (auto simp: try_parse_line_def)

lemma level_keywords_upper:
  "kw \<in> set level_keywords \<Longrightarrow> list_all (\<lambda>c. upper_char c = c \<and> is_word c) kw \<and> kw \<noteq> []"
  by (auto simp: level_keywords_def upper_char_def is_word_def is_lower_def is_upper_def
        is_digit_def in_range_def char_le_def char_bits_def)

lemma level_match:
  assumes "str_match line level_pattern = Some m"
  shows "line = skipped m @ group1 m @ rest (after m) \<and>
         toUpperCase (group1 m) \<in> set level_keywords \<and>
         list_all is_word (group1 m) \<and> group1 m \<noteq> [] \<and>
         \<not> word_before (St (prev_after None (skipped m)) (group1 m @ rest (after m)) []) \<and>
         \<not> word_after (after m)"
proof -
  let ?A = "Alts (map Lit level_keywords)"
  from assms have m: "exec_at level_pattern None line = Some m"
    by (simp add: str_match_def)
  from exec_at_sound [OF m] obtain s' ys where s': "line = skipped m @ s'"
    and r: "rmatch True (Seq WordB (Seq (Grp 1 ?A) WordB)) (St (prev_after None (skipped m)) s' [])
              = after m # ys"
    and g: "groups m = caps (after m)"
    by (auto simp: level_pattern_def pat_i_def)
  let ?X = "St (prev_after None (skipped m)) s' []"
  from r have "after m \<in> set (rmatch True (Seq WordB (Seq (Grp 1 ?A) WordB)) ?X)"
    by simp
  then obtain z1 z2 where z1: "z1 \<in> set (rmatch True WordB ?X)"
    and z2: "z2 \<in> set (rmatch True (Grp 1 ?A) z1)"
    and a: "after m \<in> set (rmatch True WordB z2)"
    unfolding seq_mem by blast
  from z1 have x: "z1 = ?X" and bx: "word_before ?X \<noteq> word_after ?X"
    unfolding wordb_mem by simp_all
  from a have a2: "after m = z2" and ba: "word_before z2 \<noteq> word_after z2"
    unfolding wordb_mem by simp_all
  from z2 x obtain y where y: "y \<in> set (rmatch True ?A ?X)"
    and z2': "z2 = St (prev y) (rest y) ((1, consumed ?X y) # caps y)"
    unfolding grp_mem by blast
  have "map Lit level_keywords \<noteq> []"
    by (simp add: level_keywords_def)
  from alts_mem [OF y this] obtain r where "r \<in> set (map Lit level_keywords)"
    and yr: "y \<in> set (rmatch True r ?X)"
    by blast
  then obtain kw where kw: "kw \<in> set level_keywords" and "r = Lit kw"
    by auto
  with yr have yk: "y \<in> set (rmatch True (Lit kw) ?X)"
    by simp
  from lit_sound [OF yk] obtain k' where k': "s' = k' @ rest y" "length k' = length kw"
    "map (canon True) k' = map (canon True) kw" "caps y = []"
    "prev y = prev_after (prev_after None (skipped m)) k'"
    by auto
  from k'(1) have c: "consumed ?X y = k'"
    by (simp add: consumed_eq)
  with g a2 z2' have g1: "group1 m = k'"
    by (simp add: group1_def group_def)
  have "canon True = upper_char"
    by (simp add: fun_eq_iff canon_def)
  with k'(3) have "map upper_char k' = map upper_char kw"
    by simp
  with upper_keyword [of k' kw] level_keywords_upper [OF kw]
  have up: "list_all is_word k'" "map upper_char k' = kw"
    by simp_all
  from level_keywords_upper [OF kw] k'(2) have ne: "k' \<noteq> []"
    by auto
  then obtain c cs where kc: "k' = c # cs" by (cases k') auto
  with up(1) k'(1) have "word_after ?X"
    by (simp add: word_after_def)
  with bx have b1: "\<not> word_before ?X" by simp
  from ne up(1) have "is_word (last k')"
    by (simp add: list_all_iff)
  with k'(5) ne kc have "word_before z2"
    by (simp add: z2' word_before_def prev_after_Some prev_after_append)
  with ba a2 have b2: "\<not> word_after (after m)" by simp
  from s' k'(1) g1 a2 z2' up kw ne b1 b2 show ?thesis
    by (simp add: toUpperCase_def word_before_def)
qed

lemma keyword_table_keys: "map fst keyword_table = level_keywords"
  by (simp add: keyword_table_def level_keywords_def)

lemma keyword_table_normalize: "(k, v) \<in> set keyword_table \<Longrightarrow> normalize_level k = v"
  by (auto simp: keyword_table_def normalize_level_def)

lemma stands_at_word:
  assumes "stands_at k a w b" "k \<in> set level_keywords"
  shows "list_all is_word w \<and> w \<noteq> [] \<and> length w = length k \<and> map upper_char w = map upper_char k"
proof -
  from assms have w: "map upper_char w = k"
    by (simp add: stands_at_def toUpperCase_def)
  from level_keywords_upper [OF assms(2)] have k: "list_all (\<lambda>c. upper_char c = c \<and> is_word c) k" "k \<noteq> []"
    by simp_all
  then have "map upper_char k = k"
    by (simp add: list_all_iff map_idI)
  with w have e: "map upper_char w = map upper_char k" by simp
  from upper_keyword [OF e k(1)] have "list_all is_word w" by simp
  moreover from w k(2) have "w \<noteq> []" by auto
  moreover from w have "length w = length k" by auto
  ultimately show ?thesis using e by simp
qed

lemma level_complete:
  assumes st: "stands_at k a w b" and k: "k \<in> set level_keywords"
  shows "rmatch True (body level_pattern) (St (prev_after None a) (w @ b) []) \<noteq> []"
proof -
  let ?A = "Alts (map Lit level_keywords)"
  let ?X = "St (prev_after None a) (w @ b) []"
  let ?y = "St (prev_after (prev_after None a) w) b []"
  let ?z = "St (prev ?y) (rest ?y) ((1, consumed ?X ?y) # caps ?y)"
  from stands_at_word [OF st k] have w: "list_all is_word w" "w \<noteq> []" "length w = length k"
    "map upper_char w = map upper_char k"
    by simp_all
  have c: "canon True = upper_char"
    by (simp add: fun_eq_iff canon_def)
  from st have "\<not> word_before ?X"
    by (auto simp: stands_at_def word_before_def prev_after_last)
  moreover from w have "word_after ?X"
    by (cases w) (simp_all add: word_after_def)
  ultimately have 1: "?X \<in> set (rmatch True WordB ?X)"
    by simp
  from w c have "?y \<in> set (rmatch True (Lit k) ?X)"
    by (intro lit_complete) simp_all
  with k have "?y \<in> set (rmatch True ?A ?X)"
    by (intro alts_intro [of "Lit k"]) simp_all
  then have 2: "?z \<in> set (rmatch True (Grp 1 ?A) ?X)"
    unfolding grp_mem by (intro bexI [of _ ?y]) simp_all
  from w have "word_before ?z"
    by (simp add: word_before_def prev_after_last list_all_iff)
  moreover from st have "\<not> word_after ?z"
    by (cases b) (simp_all add: stands_at_def word_after_def)
  ultimately have 3: "?z \<in> set (rmatch True WordB ?z)"
    by simp
  have "?z \<in> set (rmatch True (Seq WordB (Seq (Grp 1 ?A) WordB)) ?X)"
    by (intro seq_intro [OF 1] seq_intro [OF 2] 3)
  moreover have "body level_pattern = Seq WordB (Seq (Grp 1 ?A) WordB)"
    by (simp add: level_pattern_def pat_i_def)
  ultimately show ?thesis
    by (metis empty_iff empty_set)
qed

lemma keyword_unique:
  assumes 1: "stands_at k1 a w1 b1" "k1 \<in> set level_keywords"
    and 2: "stands_at k2 a w2 b2" "k2 \<in> set level_keywords"
    and eq: "w1 @ b1 = w2 @ b2"
  shows "w1 = w2"
proof -
  have one: "u = []" if "stands_at k a w (u @ b')" "stands_at k' a (w @ u) b'"
    "k' \<in> set level_keywords" for k k' w u b'
  proof (rule ccontr)
    assume "u \<noteq> []"
    then obtain c cs where u: "u = c # cs" by (cases u) auto
    from stands_at_word [OF that(2,3)] u have "is_word c" by simp
    with that(1) u show False by (simp add: stands_at_def)
  qed
  from eq consider u where "w1 = w2 @ u" "b2 = u @ b1" | u where "w2 = w1 @ u" "b1 = u @ b2"
    by (auto simp: append_eq_append_conv2)
  then show ?thesis
  proof cases
    case 1
    with one [of k2 w2 u b1 k1] assms show ?thesis by simp
  next
    case 2
    with one [of k1 w1 u b2 k2] assms show ?thesis by simp
  qed
qed

lemma level_leftmost:
  assumes line: "line = a @ w @ b" and kv: "(k, v) \<in> set keyword_table" and st: "stands_at k a w b"
    and least: "\<forall>a' w' b' k' v'. line = a' @ w' @ b' \<and> (k', v') \<in> set keyword_table \<and>
                   stands_at k' a' w' b' \<longrightarrow> length a \<le> length a'"
  shows "extract_level line = v"
proof -
  from kv have k: "k \<in> set level_keywords"
    using keyword_table_keys by (metis fst_conv image_eqI set_map)
  from level_complete [OF st k] line obtain m where
    m: "exec_at level_pattern None line = Some m" and le: "length (skipped m) \<le> length a"
    using exec_at_leftmost [of level_pattern None a "w @ b"]
    by (auto simp: level_pattern_def pat_i_def)
  then have sm: "str_match line level_pattern = Some m"
    by (simp add: str_match_def)
  note lm = level_match [OF sm]
  let ?k = "toUpperCase (group1 m)"
  from lm have k': "?k \<in> set level_keywords" by simp
  then obtain v' where kv': "(?k, v') \<in> set keyword_table"
    using keyword_table_keys by (metis (no_types, opaque_lifting) fst_conv imageE set_map surj_pair)
  have st': "stands_at ?k (skipped m) (group1 m) (rest (after m))"
    using lm by (cases "rest (after m)") (auto simp: stands_at_def word_before_def prev_after_last word_after_def)
  from least lm kv' st' have "length a \<le> length (skipped m)"
    by blast
  with le have "length (skipped m) = length a" by simp
  with lm line have sk: "skipped m = a" and r: "group1 m @ rest (after m) = w @ b"
    by (metis append_eq_append_conv)+
  from keyword_unique [OF _ k' st k r] st' sk have "group1 m = w"
    by simp
  with st have "?k = k" by (simp add: stands_at_def)
  with sm keyword_table_normalize [OF kv] show ?thesis
    by (simp add: extract_level_def)
qed

lemma level_found:
  assumes "line = a @ w @ b" "(k, v) \<in> set keyword_table" "stands_at k a w b"
  shows "str_match line level_pattern \<noteq> None"
proof -
  from assms(2) have k: "k \<in> set level_keywords"
    using keyword_table_keys by (metis fst_conv image_eqI set_map)
  from level_complete [OF assms(3) k] assms(1) show ?thesis
    using exec_at_leftmost [of level_pattern None a "w @ b"]
    by (auto simp: level_pattern_def pat_i_def str_match_def)
qed

lemma level_none:
  assumes "\<forall>a w b k v. line = a @ w @ b \<and> (k, v) \<in> set keyword_table \<longrightarrow> \<not> stands_at k a w b"
  shows "extract_level line = ''INFO''"
proof (cases "str_match line level_pattern")
  case None
  then show ?thesis by (simp add: extract_level_def)
next
  case (Some m)
  note lm = level_match [OF Some]
  let ?k = "toUpperCase (group1 m)"
  from lm have "?k \<in> set level_keywords" by simp
  then obtain v' where kv': "(?k, v') \<in> set keyword_table"
    using keyword_table_keys by (metis (no_types, opaque_lifting) fst_conv imageE set_map surj_pair)
  have "stands_at ?k (skipped m) (group1 m) (rest (after m))"
    using lm by (cases "rest (after m)") (auto simp: stands_at_def word_before_def prev_after_last word_after_def)
  with assms lm kv' show ?thesis by blast
qed

lemma extract_timestamp_eq:
  "extract_timestamp now line =
     Inr (case first_matching timestampPatterns line of
            None \<Rightarrow> iso_format now
          | Some m \<Rightarrow> if test epoch_pattern (group1 m) then iso_format (parseInt (group1 m))
                      else group1 m)"
proof (cases "first_matching timestampPatterns line")
  case None
  then show ?thesis by (simp add: extract_timestamp_def)
next
  case (Some m)
  show ?thesis
  proof (cases "test epoch_pattern (group1 m)")
    case True
    then have "length (group1 m) = 13" using epoch_digits by blast
    with parseInt_bound [of "group1 m"] have "parseInt (group1 m) < 10 ^ 13" by simp
    then have "parseInt (group1 m) \<le> 8640000000000000" by simp
    with Some True show ?thesis by (simp add: extract_timestamp_def toISOString_def)
  next
    case False
    with Some show ?thesis by (simp add: extract_timestamp_def)
  qed
qed

lemma line_entry_eq:
  "line_entry clock il =
     \<lparr>log_id = make_id (fst il),
      timestamp = line_timestamp (clock (fst il)) (snd il),
      level = extract_level (snd il),
      message = trim (snd il),
      component = extract_component (snd il),
      url = extract_url (snd il),
      responseCode = extract_responseCode (snd il),
      headers = (let hs = extract_headers (snd il) in if hs \<noteq> [] then Some hs else None)\<rparr>"
  by (simp add: line_entry_def try_parse_line_def extract_timestamp_eq line_timestamp_def)

lemma line_entry_level: "level (line_entry clock il) = extract_level (snd il)"
  by (simp add: line_entry_eq)

text \<open>
  C3.  The parser returns one entry for each line of the text that is not blank after
  trimming, in order, and none for a blank line: the number of entries is the number of
  such lines, and the message of each entry is its line, trimmed.
\<close>

theorem parseLogText_one_entry_per_line:
  "length (parseLogText clock text)
     = length (filter (\<lambda>line. trim line \<noteq> []) (split_on CHR 0x0A text)) \<and>
   map message (parseLogText clock text)
     = map trim (filter (\<lambda>line. trim line \<noteq> []) (split_on CHR 0x0A text))"
proof -
  have "message (line_entry clock il) = trim (snd il)"
    if "il \<in> set (enumerate 0 (nonblank_lines text))" for il
    using that by (intro line_entry_message nonblank_lines_trim enumerate_snd_mem)
  then have "map message (map (line_entry clock) (enumerate 0 (nonblank_lines text)))
          = map (trim \<circ> snd) (enumerate 0 (nonblank_lines text))"
    by simp
  also have "\<dots> = map trim (nonblank_lines text)"
    by (simp flip: map_map)
  finally show ?thesis
    by (simp add: parseLogText_entries) (simp add: nonblank_lines_def)
qed

theorem parseLogText_one_entry_per_line_witness:
  "length (parseLogText clock_a two_of_three) = 2 \<and>
   map message (parseLogText clock_a two_of_three) = [''a'', ''b'']"
proof -
  have "filter (\<lambda>line. trim line \<noteq> []) (split_on CHR 0x0A two_of_three) = [''a'', ''  b '']"
    and "map trim [''a'', ''  b ''] = [''a'', ''b'']"
    by code_simp+
  with parseLogText_one_entry_per_line [of clock_a two_of_three] show ?thesis by simp
qed

text \<open>
  C4 as stated: two invocations on the same text return the same entries, timestamps
  included.  It fails for a line without a timestamp: its entry carries the time of the
  invocation, and two invocations one second apart differ.
\<close>

theorem parseLogText_clock_counterexample:
  "parseLogText clock_a ''hello'' \<noteq> parseLogText clock_b ''hello''"
  by code_simp

text \<open>
  C4, amended.  Two invocations on the same text return entries that agree in every
  field but \<open>timestamp\<close>.  They agree in \<open>timestamp\<close> too when every non-blank line
  matches one of the timestamp patterns, and when the clock reads the same values.
\<close>

theorem parseLogText_deterministic_up_to_clock:
  "map (timestamp_update (\<lambda>_. [])) (parseLogText c1 text)
     = map (timestamp_update (\<lambda>_. [])) (parseLogText c2 text) \<and>
   ((\<forall>line \<in> set (nonblank_lines text). first_matching timestampPatterns line \<noteq> None) \<longrightarrow>
      parseLogText c1 text = parseLogText c2 text) \<and>
   ((\<forall>i < length (nonblank_lines text). c1 i = c2 i) \<longrightarrow>
      parseLogText c1 text = parseLogText c2 text)"
proof (intro conjI impI)
  show "map (timestamp_update (\<lambda>_. [])) (parseLogText c1 text)
          = map (timestamp_update (\<lambda>_. [])) (parseLogText c2 text)"
    by (simp add: parseLogText_entries line_entry_eq)
next
  assume "\<forall>line \<in> set (nonblank_lines text). first_matching timestampPatterns line \<noteq> None"
  then have "line_entry c1 il = line_entry c2 il"
    if "il \<in> set (enumerate 0 (nonblank_lines text))" for il
    using enumerate_snd_mem [OF that]
    by (auto simp: line_entry_eq line_timestamp_def)
  then show "parseLogText c1 text = parseLogText c2 text"
    by (simp add: parseLogText_entries)
next
  assume "\<forall>i < length (nonblank_lines text). c1 i = c2 i"
  then have "line_entry c1 il = line_entry c2 il"
    if "il \<in> set (enumerate 0 (nonblank_lines text))" for il
    using that by (cases il) (auto simp: line_entry_eq in_set_enumerate_eq)
  then show "parseLogText c1 text = parseLogText c2 text"
    by (simp add: parseLogText_entries)
qed

theorem parseLogText_deterministic_up_to_clock_witness:
  "nonblank_lines stamped_line = [stamped_line] \<and>
   first_matching timestampPatterns stamped_line \<noteq> None \<and>
   parseLogText clock_a stamped_line = parseLogText clock_b stamped_line \<and>
   map (timestamp_update (\<lambda>_. [])) (parseLogText clock_a ''hello'')
     = map (timestamp_update (\<lambda>_. [])) (parseLogText clock_b ''hello'')"
proof -
  have "nonblank_lines stamped_line = [stamped_line]"
    and "first_matching timestampPatterns stamped_line \<noteq> None"
    by code_simp+
  with parseLogText_deterministic_up_to_clock [of clock_a stamped_line clock_b]
       parseLogText_deterministic_up_to_clock [of clock_a "''hello''" clock_b]
  show ?thesis by simp
qed

text \<open>
  C6.  The level of a line is one of \<open>ERROR\<close>, \<open>WARN\<close>, \<open>INFO\<close>, \<open>DEBUG\<close>.  Without a
  match of the level pattern it is \<open>INFO\<close>.  A match is one of the eight keywords in any
  letter case, with no word character directly before or after it, and the level is the
  keyword in upper case sent through the table \<open>TRACE\<close> to \<open>DEBUG\<close>, \<open>WARNING\<close> to
  \<open>WARN\<close>, \<open>FATAL\<close> and \<open>CRITICAL\<close> to \<open>ERROR\<close>, the other four unchanged.  So the
  level of every entry the parser returns is one of the four.

  Detection misses nothing: a line in which one of the eight keywords stands, in any
  letter case and between word boundaries, has a match; the keyword that stands leftmost
  decides, and the level is the one the table gives for it; a line in which none of the
  eight stands has the level \<open>INFO\<close>.
\<close>

theorem extract_level_closed:
  "extract_level line \<in> {''ERROR'', ''WARN'', ''INFO'', ''DEBUG''} \<and>
   (str_match line level_pattern = None \<longrightarrow> extract_level line = ''INFO'') \<and>
   (\<forall>m. str_match line level_pattern = Some m \<longrightarrow>
      line = skipped m @ group1 m @ rest (after m) \<and>
      toUpperCase (group1 m) \<in> set level_keywords \<and>
      (skipped m = [] \<or> \<not> is_word (last (skipped m))) \<and>
      (rest (after m) = [] \<or> \<not> is_word (hd (rest (after m)))) \<and>
      extract_level line = normalize_level (toUpperCase (group1 m))) \<and>
   map normalize_level level_keywords
     = [''DEBUG'', ''DEBUG'', ''INFO'', ''WARN'', ''WARN'', ''ERROR'', ''ERROR'', ''ERROR''] \<and>
   (\<forall>r \<in> set (parseLogText clock text). level r \<in> {''ERROR'', ''WARN'', ''INFO'', ''DEBUG''}) \<and>
   (\<forall>a w b k v. line = a @ w @ b \<and> (k, v) \<in> set keyword_table \<and> stands_at k a w b \<longrightarrow>
      str_match line level_pattern \<noteq> None) \<and>
   (\<forall>a w b k v. line = a @ w @ b \<and> (k, v) \<in> set keyword_table \<and> stands_at k a w b \<and>
      (\<forall>a' w' b' k' v'. line = a' @ w' @ b' \<and> (k', v') \<in> set keyword_table \<and>
         stands_at k' a' w' b' \<longrightarrow> length a \<le> length a') \<longrightarrow>
      extract_level line = v) \<and>
   ((\<forall>a w b k v. line = a @ w @ b \<and> (k, v) \<in> set keyword_table \<longrightarrow> \<not> stands_at k a w b) \<longrightarrow>
      extract_level line = ''INFO'')"
proof -
  have table: "map normalize_level level_keywords
     = [''DEBUG'', ''DEBUG'', ''INFO'', ''WARN'', ''WARN'', ''ERROR'', ''ERROR'', ''ERROR'']"
    by (simp add: level_keywords_def normalize_level_def)
  have some: "line = skipped m @ group1 m @ rest (after m) \<and>
      toUpperCase (group1 m) \<in> set level_keywords \<and>
      (skipped m = [] \<or> \<not> is_word (last (skipped m))) \<and>
      (rest (after m) = [] \<or> \<not> is_word (hd (rest (after m)))) \<and>
      extract_level line = normalize_level (toUpperCase (group1 m))"
    if m: "str_match line level_pattern = Some m" for line m
  proof -
    have "extract_level line = normalize_level (toUpperCase (group1 m))"
      using m by (simp add: extract_level_def)
    moreover have "skipped m = [] \<or> \<not> is_word (last (skipped m))"
      using level_match [OF m] by (auto simp: word_before_def prev_after_last)
    moreover have "rest (after m) = [] \<or> \<not> is_word (hd (rest (after m)))"
      using level_match [OF m] by (cases "rest (after m)") (auto simp: word_after_def)
    ultimately show ?thesis
      using level_match [OF m] by blast
  qed
  have closed: "extract_level line \<in> {''ERROR'', ''WARN'', ''INFO'', ''DEBUG''}" for line
  proof (cases "str_match line level_pattern")
    case None
    then show ?thesis by (simp add: extract_level_def)
  next
    case (Some m)
    from some [OF Some] have "toUpperCase (group1 m) \<in> set level_keywords"
      and "extract_level line = normalize_level (toUpperCase (group1 m))"
      by blast+
    then show ?thesis
      by (auto simp: level_keywords_def normalize_level_def)
  qed
  have none: "extract_level line = ''INFO''" if "str_match line level_pattern = None"
    using that by (simp add: extract_level_def)
  have entries: "level r \<in> {''ERROR'', ''WARN'', ''INFO'', ''DEBUG''}"
    if "r \<in> set (parseLogText clock text)" for r
  proof -
    from that obtain il where "r = line_entry clock il"
      by (auto simp: parseLogText_entries)
    with closed [of "snd il"] show ?thesis
      by (simp only: line_entry_level)
  qed
  have found: "\<forall>a w b k v. line = a @ w @ b \<and> (k, v) \<in> set keyword_table \<and> stands_at k a w b \<longrightarrow>
      str_match line level_pattern \<noteq> None"
    using level_found by blast
  have leftmost: "\<forall>a w b k v. line = a @ w @ b \<and> (k, v) \<in> set keyword_table \<and> stands_at k a w b \<and>
      (\<forall>a' w' b' k' v'. line = a' @ w' @ b' \<and> (k', v') \<in> set keyword_table \<and>
         stands_at k' a' w' b' \<longrightarrow> length a \<le> length a') \<longrightarrow>
      extract_level line = v"
    using level_leftmost [of line] by blast
  have absent: "(\<forall>a w b k v. line = a @ w @ b \<and> (k, v) \<in> set keyword_table \<longrightarrow> \<not> stands_at k a w b) \<longrightarrow>
      extract_level line = ''INFO''"
    using level_none [of line] by blast
  from some have some': "\<forall>m. str_match line level_pattern = Some m \<longrightarrow>
      line = skipped m @ group1 m @ rest (after m) \<and>
      toUpperCase (group1 m) \<in> set level_keywords \<and>
      (skipped m = [] \<or> \<not> is_word (last (skipped m))) \<and>
      (rest (after m) = [] \<or> \<not> is_word (hd (rest (after m)))) \<and>
      extract_level line = normalize_level (toUpperCase (group1 m))"
    by blast
  from entries have entries': "\<forall>r \<in> set (parseLogText clock text).
      level r \<in> {''ERROR'', ''WARN'', ''INFO'', ''DEBUG''}"
    by blast
  from none have none': "str_match line level_pattern = None \<longrightarrow> extract_level line = ''INFO''"
    by blast
  show ?thesis
    by (intro conjI closed none' some' table entries' found leftmost absent)
qed

theorem extract_level_closed_witness:
  "str_match ''a Warning b'' level_pattern = Some warning_match \<and>
   toUpperCase (group1 warning_match) \<in> set level_keywords \<and>
   extract_level ''a Warning b'' = normalize_level (toUpperCase (group1 warning_match)) \<and>
   str_match ''nothing here'' level_pattern = None \<and>
   extract_level ''nothing here'' = ''INFO'' \<and>
   (''FATAL'', ''ERROR'') \<in> set keyword_table \<and>
   stands_at ''FATAL'' [] ''Fatal'' '' error, with a warning'' \<and>
   str_match ''Fatal error, with a warning'' level_pattern \<noteq> None \<and>
   extract_level ''Fatal error, with a warning'' = ''ERROR''"
proof -
  let ?line = "''Fatal error, with a warning''"
  have 1: "str_match ''a Warning b'' level_pattern = Some warning_match"
    and 2: "str_match ''nothing here'' level_pattern = None"
    by code_simp+
  have 3: "(''FATAL'', ''ERROR'') \<in> set keyword_table"
    by (simp add: keyword_table_def)
  have 4: "stands_at ''FATAL'' [] ''Fatal'' '' error, with a warning''"
    by code_simp
  have 5: "?line = [] @ ''Fatal'' @ '' error, with a warning''"
    by simp
  note t = extract_level_closed [of ?line]
  note found = t [THEN conjunct2, THEN conjunct2, THEN conjunct2, THEN conjunct2, THEN conjunct2,
                  THEN conjunct1, rule_format]
  note leftmost = t [THEN conjunct2, THEN conjunct2, THEN conjunct2, THEN conjunct2,
                     THEN conjunct2, THEN conjunct2, THEN conjunct1, rule_format]
  have 6: "str_match ?line level_pattern \<noteq> None"
    by (rule found [of "[]" "''Fatal''" "'' error, with a warning''" "''FATAL''" "''ERROR''"])
       (intro conjI 3 4 5)
  have 7: "extract_level ?line = ''ERROR''"
    by (rule leftmost [of "[]" "''Fatal''" "'' error, with a warning''" "''FATAL''" "''ERROR''"])
       (intro conjI allI impI 3 4 5, simp)
  note w = extract_level_closed [of "''a Warning b''"]
  note n = extract_level_closed [of "''nothing here''"]
  note ws = w [THEN conjunct2, THEN conjunct2, THEN conjunct1, rule_format, OF 1]
  from ws have 8: "toUpperCase (group1 warning_match) \<in> set level_keywords"
    by (elim conjE)
  from ws
  have 9: "extract_level ''a Warning b'' = normalize_level (toUpperCase (group1 warning_match))"
    by (elim conjE)
  from n [THEN conjunct2, THEN conjunct1, rule_format, OF 2]
  have 10: "extract_level ''nothing here'' = ''INFO''" .
  show ?thesis
    by (intro conjI 1 2 3 4 6 7 8 9 10)
qed

text \<open>
  C7 as stated: the id of an entry numbers its line by the line's position in the whole
  text.  It fails for a text whose first line is empty: the entry of the second line is
  \<open>log-1\<close>, not \<open>log-2\<close>.
\<close>

theorem id_original_position_counterexample:
  "map log_id (parseLogText clock_a blank_then_foo) = [''log-1''] \<and>
   spec_ids blank_then_foo = [''log-2'']"
  by code_simp

text \<open>
  C7, amended.  The ids number the entries: the entry of the \<open>k\<close>-th non-blank line has
  the id \<open>log-k\<close>, counting from 1 and counting the non-blank lines only.
\<close>

theorem parseLogText_ids:
  "map log_id (parseLogText clock text) = map make_id [0 ..< length (nonblank_lines text)]"
proof -
  have "map log_id (parseLogText clock text)
          = map (make_id \<circ> fst) (enumerate 0 (nonblank_lines text))"
    by (simp add: parseLogText_entries line_entry_id)
  also have "\<dots> = map make_id [0 ..< length (nonblank_lines text)]"
    by (simp flip: map_map)
  finally show ?thesis .
qed

theorem parseLogText_ids_witness:
  "map log_id (parseLogText clock_a blank_then_foo) = [''log-1'']"
proof -
  have "map make_id [0 ..< length (nonblank_lines blank_then_foo)] = [''log-1'']"
    by code_simp
  with parseLogText_ids [of clock_a blank_then_foo] show ?thesis by simp
qed

text \<open>
  C8.  Each pair is split at every colon and only the first two pieces are read: for the
  pair \<open>Auth: Bearer x:y\<close> the value is \<open>Bearer x\<close>, not the whole text after the first
  colon.
\<close>

theorem extract_headers_cuts_value:
  "extract_headers ''headers: {Auth: Bearer x:y}'' = [(''Auth'', ''Bearer x'')]"
  by code_simp

end
